theory Spec2Isabelle
  imports Main "HOL-Library.Word" "HOL-Library.Sublist"
begin

unbundle bit_operations_syntax

section \<open>Data model\<close>

type_synonym u8 = "8 word"
type_synonym u16 = "16 word"

text \<open>\<^verbatim>\<open>FingerPrint.h\<close>: the two sizes of the class.\<close>

abbreviation (input) TEMPLATE_SIZE :: nat where "TEMPLATE_SIZE \<equiv> 512"
abbreviation (input) HASH_SIZE :: nat where "HASH_SIZE \<equiv> 32"

text \<open>
  The status codes and packet identifiers come from the header of the Adafruit fingerprint
  driver, which \<^verbatim>\<open>FingerPrint.h\<close> includes; the values are the ones of that header.
\<close>

abbreviation (input) FINGERPRINT_OK :: u8 where "FINGERPRINT_OK \<equiv> 0x00"
abbreviation (input) FINGERPRINT_PACKETRECIEVEERR :: u8 where "FINGERPRINT_PACKETRECIEVEERR \<equiv> 0x01"
abbreviation (input) FINGERPRINT_NOFINGER :: u8 where "FINGERPRINT_NOFINGER \<equiv> 0x02"
abbreviation (input) FINGERPRINT_IMAGEMESS :: u8 where "FINGERPRINT_IMAGEMESS \<equiv> 0x06"
abbreviation (input) FINGERPRINT_FEATUREFAIL :: u8 where "FINGERPRINT_FEATUREFAIL \<equiv> 0x07"
abbreviation (input) FINGERPRINT_ENROLLMISMATCH :: u8 where "FINGERPRINT_ENROLLMISMATCH \<equiv> 0x0A"
abbreviation (input) FINGERPRINT_TIMEOUT :: u8 where "FINGERPRINT_TIMEOUT \<equiv> 0xFF"
abbreviation (input) FINGERPRINT_UPLOAD :: u8 where "FINGERPRINT_UPLOAD \<equiv> 0x08"
abbreviation (input) FINGERPRINT_COMMANDPACKET :: u8 where "FINGERPRINT_COMMANDPACKET \<equiv> 0x01"
abbreviation (input) FINGERPRINT_DATAPACKET :: u8 where "FINGERPRINT_DATAPACKET \<equiv> 0x02"
abbreviation (input) FINGERPRINT_ACKPACKET :: u8 where "FINGERPRINT_ACKPACKET \<equiv> 0x07"
abbreviation (input) FINGERPRINT_ENDDATAPACKET :: u8 where "FINGERPRINT_ENDDATAPACKET \<equiv> 0x08"

text \<open>
  Everything outside the class is one record: the serial stream \<^verbatim>\<open>_serial\<close> and the
  sensor driver \<^verbatim>\<open>_sensor\<close>.

  \<^item> \<open>serial_set\<close>: \<^verbatim>\<open>_serial != nullptr\<close>.
  \<^item> \<open>rx\<close>: the outcomes of the successive timed waits of \<^verbatim>\<open>_readByte\<close>, in order:
    \<open>Some b\<close> when byte \<open>b\<close> arrived within the timeout, \<open>None\<close> when the wait timed out.
    Once the list is used up no byte arrives any more.
  \<^item> \<open>pending\<close>, \<open>flushed\<close>: the bytes written to \<^verbatim>\<open>_serial\<close> since the last
    \<^verbatim>\<open>flush()\<close>, and the runs of bytes completed by each \<^verbatim>\<open>flush()\<close>, oldest first.
  \<^item> \<open>image\<close>, \<open>tz\<close>, \<open>model\<close>, \<open>ack\<close>: what the driver answers to the k-th call of
    \<^verbatim>\<open>getImage\<close>, \<^verbatim>\<open>image2Tz\<close>, \<^verbatim>\<open>createModel\<close> and \<^verbatim>\<open>getStructuredPacket\<close>
    (status, and for the last one the contents of the packet's \<^verbatim>\<open>data\<close> array after the
    call); \<open>image_calls\<close>, \<open>tz_slots\<close>, \<open>model_calls\<close>, \<open>ack_calls\<close> record the calls
    made so far (for \<^verbatim>\<open>image2Tz\<close> the slot of each call).
  \<^item> \<open>sent\<close>: the packets handed to \<^verbatim>\<open>writeStructuredPacket\<close>, as type and data.

  The driver is not part of the class: its answers are given, and what it reads from the
  wire to produce them is not taken from \<open>rx\<close>. \<^verbatim>\<open>delay\<close>, \<^verbatim>\<open>yield\<close> and the log output on
  \<^verbatim>\<open>Serial\<close> have no effect on any of this and are left out.
\<close>

record device =
  serial_set :: bool
  rx :: "u8 option list"
  pending :: "u8 list"
  flushed :: "u8 list list"
  image :: "nat \<Rightarrow> u8"
  image_calls :: nat
  tz :: "nat \<Rightarrow> u8"
  tz_slots :: "u8 list"
  model :: "nat \<Rightarrow> u8"
  model_calls :: nat
  ack :: "nat \<Rightarrow> u8 \<times> (nat \<Rightarrow> u8)"
  ack_calls :: nat
  sent :: "(u8 \<times> u8 list) list"

section \<open>The sensor driver and the serial stream\<close>

definition getImage :: "device \<Rightarrow> u8 \<times> device" where
  "getImage d = (image d (image_calls d), d\<lparr>image_calls := Suc (image_calls d)\<rparr>)"

definition image2Tz :: "u8 \<Rightarrow> device \<Rightarrow> u8 \<times> device" where
  "image2Tz slot d = (tz d (length (tz_slots d)), d\<lparr>tz_slots := tz_slots d @ [slot]\<rparr>)"

definition createModel :: "device \<Rightarrow> u8 \<times> device" where
  "createModel d = (model d (model_calls d), d\<lparr>model_calls := Suc (model_calls d)\<rparr>)"

definition writeStructuredPacket :: "u8 \<Rightarrow> u8 list \<Rightarrow> device \<Rightarrow> device" where
  "writeStructuredPacket ty dat d = d\<lparr>sent := sent d @ [(ty, dat)]\<rparr>"

definition getStructuredPacket :: "device \<Rightarrow> (u8 \<times> (nat \<Rightarrow> u8)) \<times> device" where
  "getStructuredPacket d = (ack d (ack_calls d), d\<lparr>ack_calls := Suc (ack_calls d)\<rparr>)"

definition serial_write :: "u8 list \<Rightarrow> device \<Rightarrow> device" where
  "serial_write bs d = d\<lparr>pending := pending d @ bs\<rparr>"

definition serial_flush :: "device \<Rightarrow> device" where
  "serial_flush d = d\<lparr>flushed := flushed d @ [pending d], pending := []\<rparr>"

text \<open>
  \<^verbatim>\<open>_readByte\<close> (lines 36-50): \<open>None\<close> is the return value -1, which the code gives when
  \<^verbatim>\<open>_serial\<close> is not set and when the wait times out; \<open>Some b\<close> is the byte read.
\<close>

definition readByte :: "device \<Rightarrow> u8 option \<times> device" where
  "readByte d =
     (if \<not> serial_set d then (None, d)
      else case rx d of
             [] \<Rightarrow> (None, d)
           | x # xs \<Rightarrow> (x, d\<lparr>rx := xs\<rparr>))"

section \<open>Template download\<close>

text \<open>\<^verbatim>\<open>memset(buffer + off, 0, n)\<close> on a buffer that holds at least \<open>off + n\<close> bytes.\<close>

definition memset0 :: "u8 list \<Rightarrow> nat \<Rightarrow> nat \<Rightarrow> u8 list" where
  "memset0 buffer off n = take off buffer @ replicate n 0 @ drop (off + n) buffer"

text \<open>
  Lines 107-112: the four address bytes. The flag is \<open>False\<close> when one of the reads timed
  out (the return of line 110).
\<close>

fun readAddress :: "nat \<Rightarrow> device \<Rightarrow> bool \<times> device" where
  "readAddress 0 d = (True, d)"
| "readAddress (Suc k) d =
     (case readByte d of
        (None, d') \<Rightarrow> (False, d')
      | (Some b, d') \<Rightarrow> readAddress k d')"

text \<open>
  Lines 141-148: the loop over the payload bytes. The first argument is what is left of
  \<^verbatim>\<open>dataLen\<close>, that is \<^verbatim>\<open>dataLen - i\<close>. The flag is \<open>False\<close> for the timeout return of
  line 145; the bytes stored before it stay in the buffer.
  \<^verbatim>\<open>bytesRead\<close> never exceeds 512, so its 16 bits never wrap and it is a \<open>nat\<close>.
\<close>

fun readData :: "nat \<Rightarrow> device \<Rightarrow> u8 list \<Rightarrow> nat \<Rightarrow> bool \<times> device \<times> u8 list \<times> nat" where
  "readData 0 d buffer bytesRead = (True, d, buffer, bytesRead)"
| "readData (Suc k) d buffer bytesRead =
     (if bytesRead < TEMPLATE_SIZE then
        (case readByte d of
           (None, d') \<Rightarrow> (False, d', buffer, bytesRead)
         | (Some dataByte, d') \<Rightarrow> readData k d' (buffer[bytesRead := dataByte]) (Suc bytesRead))
      else (True, d, buffer, bytesRead))"

text \<open>Lines 151-152 and 163-165: reads whose result is thrown away.\<close>

fun readDiscard :: "nat \<Rightarrow> device \<Rightarrow> device" where
  "readDiscard 0 d = d"
| "readDiscard (Suc k) d = readDiscard k (snd (readByte d))"

text \<open>
  One pass through the body of the \<^verbatim>\<open>while\<close> loop of \<^verbatim>\<open>_readRawTemplate\<close> (lines 85-170):
  either the function returns from inside the loop (\<open>Return\<close>: status, device, buffer), or
  the loop goes on (\<open>Continue\<close>: device, buffer, \<^verbatim>\<open>bytesRead\<close>, \<^verbatim>\<open>endReceived\<close>).
\<close>

datatype step =
  Return u8 device "u8 list"
| Continue device "u8 list" nat bool

definition readPacket :: "device \<Rightarrow> u8 list \<Rightarrow> nat \<Rightarrow> step" where
  "readPacket d0 buffer bytesRead =
     (let (b1, d1) = readByte d0;
          (b2, d2) = readByte d1
      in if b1 = None \<or> b2 = None then
           (if bytesRead > 0
            then Return FINGERPRINT_OK d2 (memset0 buffer bytesRead (TEMPLATE_SIZE - bytesRead))
            else Return FINGERPRINT_TIMEOUT d2 buffer)
         else if b1 \<noteq> Some 0xEF \<or> b2 \<noteq> Some 0x01 then
           Return FINGERPRINT_PACKETRECIEVEERR d2 buffer
         else
           (case readAddress 4 d2 of
              (False, d3) \<Rightarrow> Return FINGERPRINT_TIMEOUT d3 buffer
            | (True, d3) \<Rightarrow>
               (case readByte d3 of
                  (None, d4) \<Rightarrow> Return FINGERPRINT_TIMEOUT d4 buffer
                | (Some packetType, d4) \<Rightarrow>
                   (let (len_high, d5) = readByte d4;
                        (len_low, d6) = readByte d5
                    in case (len_high, len_low) of
                         (Some hi, Some lo) \<Rightarrow>
                           (let packetLen = (push_bit 8 (ucast hi :: u16)) OR ucast lo
                            in if packetType = FINGERPRINT_DATAPACKET
                                  \<or> packetType = FINGERPRINT_ENDDATAPACKET then
                                 (let dataLen = packetLen - 2
                                  in case readData (unat dataLen) d6 buffer bytesRead of
                                       (False, d7, buffer', bytesRead') \<Rightarrow>
                                         Return FINGERPRINT_TIMEOUT d7 buffer'
                                     | (True, d7, buffer', bytesRead') \<Rightarrow>
                                         Continue (readDiscard 2 d7) buffer' bytesRead'
                                           (packetType = FINGERPRINT_ENDDATAPACKET))
                               else if packetType = FINGERPRINT_ACKPACKET then
                                 Return FINGERPRINT_PACKETRECIEVEERR
                                   (readDiscard (unat packetLen) d6) buffer
                               else Return FINGERPRINT_PACKETRECIEVEERR d6 buffer)
                       | _ \<Rightarrow> Return FINGERPRINT_TIMEOUT d6 buffer))))"

text \<open>Every read leaves at most as many outcomes as it found.\<close>

lemma readByte_rx_le: "length (rx (snd (readByte d))) \<le> length (rx d)"
  by (simp add: readByte_def split: list.split)

lemma readByte_Some_rx: "readByte d = (Some b, d') \<Longrightarrow> length (rx d') < length (rx d)"
  by (auto simp: readByte_def split: if_splits list.splits)

lemma readByte_rx_le': "readByte d = (x, d') \<Longrightarrow> length (rx d') \<le> length (rx d)"
  using readByte_rx_le [of d] by simp

lemma readAddress_rx_le: "readAddress k d = (ok, d') \<Longrightarrow> length (rx d') \<le> length (rx d)"
proof (induction k arbitrary: d)
  case 0
  then show ?case by simp
next
  case (Suc k)
  obtain x d1 where r: "readByte d = (x, d1)" by (cases "readByte d")
  from readByte_rx_le' [OF r] Suc r show ?case
    by (cases x) (auto dest!: Suc.IH)
qed

lemma readData_rx_le:
  "readData k d buffer n = (ok, d', buffer', n') \<Longrightarrow> length (rx d') \<le> length (rx d)"
proof (induction k arbitrary: d buffer n)
  case 0
  then show ?case by simp
next
  case (Suc k)
  obtain x d1 where r: "readByte d = (x, d1)" by (cases "readByte d")
  from readByte_rx_le' [OF r] Suc r show ?case
    by (cases x) (auto split: if_splits dest!: Suc.IH)
qed

lemma readDiscard_rx_le: "length (rx (readDiscard k d)) \<le> length (rx d)"
proof (induction k arbitrary: d)
  case 0
  then show ?case by simp
next
  case (Suc k)
  have "length (rx (readDiscard k (snd (readByte d)))) \<le> length (rx (snd (readByte d)))"
    by (rule Suc.IH)
  with readByte_rx_le [of d] show ?case by simp
qed

lemma readPacket_Continue_rx:
  assumes "readPacket d buffer n = Continue d' buffer' n' e"
  shows "length (rx d') < length (rx d)"
proof -
  obtain b1 d1 where r1: "readByte d = (b1, d1)" by (cases "readByte d")
  obtain b2 d2 where r2: "readByte d1 = (b2, d2)" by (cases "readByte d1")
  obtain ok d3 where r3: "readAddress 4 d2 = (ok, d3)" by (cases "readAddress 4 d2")
  obtain t d4 where r4: "readByte d3 = (t, d4)" by (cases "readByte d3")
  obtain hi d5 where r5: "readByte d4 = (hi, d5)" by (cases "readByte d4")
  obtain lo d6 where r6: "readByte d5 = (lo, d6)" by (cases "readByte d5")
  from assms r1 r2 obtain v where b1: "b1 = Some v"
    by (cases b1) (auto simp: readPacket_def split: if_splits)
  have l1: "length (rx d1) < length (rx d)" using readByte_Some_rx r1 b1 by blast
  have l2: "length (rx d2) \<le> length (rx d1)" by (rule readByte_rx_le' [OF r2])
  have l3: "length (rx d3) \<le> length (rx d2)" by (rule readAddress_rx_le [OF r3])
  have l4: "length (rx d4) \<le> length (rx d3)" by (rule readByte_rx_le' [OF r4])
  have l5: "length (rx d5) \<le> length (rx d4)" by (rule readByte_rx_le' [OF r5])
  have l6: "length (rx d6) \<le> length (rx d5)" by (rule readByte_rx_le' [OF r6])
  from assms r1 r2 r3 r4 r5 r6 obtain k d7 where
    r7: "readData k d6 buffer n = (True, d7, buffer', n')" and d': "d' = readDiscard 2 d7"
    by (auto simp: readPacket_def Let_def split: if_splits option.splits bool.splits prod.splits)
  have l7: "length (rx d7) \<le> length (rx d6)" by (rule readData_rx_le [OF r7])
  have l8: "length (rx d') \<le> length (rx d7)" unfolding d' by (rule readDiscard_rx_le)
  from l1 l2 l3 l4 l5 l6 l7 l8 show ?thesis by linarith
qed

text \<open>
  The \<^verbatim>\<open>while (!endReceived && bytesRead < TEMPLATE_SIZE)\<close> loop (lines 84-171). It ends
  with \<open>Return\<close> when the body returned, and with \<open>Continue\<close> (the state at loop exit) when
  the condition failed.
\<close>

function readPackets :: "device \<Rightarrow> u8 list \<Rightarrow> nat \<Rightarrow> bool \<Rightarrow> step" where
  "readPackets d buffer bytesRead endReceived =
     (if \<not> endReceived \<and> bytesRead < TEMPLATE_SIZE then
        (case readPacket d buffer bytesRead of
           Return r d' buffer' \<Rightarrow> Return r d' buffer'
         | Continue d' buffer' bytesRead' endReceived' \<Rightarrow>
             readPackets d' buffer' bytesRead' endReceived')
      else Continue d buffer bytesRead endReceived)"
  by pat_completeness auto
termination
  by (relation "measure (\<lambda>(d, buffer, bytesRead, endReceived). length (rx d))")
     (auto dest: readPacket_Continue_rx)

declare readPackets.simps [simp del]

text \<open>
  \<^verbatim>\<open>_readRawTemplate\<close> (lines 52-191): status, device and buffer at the return. The caller
  passes a buffer of \<^verbatim>\<open>TEMPLATE_SIZE\<close> bytes.
\<close>

definition readRawTemplate :: "device \<Rightarrow> u8 list \<Rightarrow> u8 \<times> device \<times> u8 list" where
  "readRawTemplate d0 buffer =
     (let d1 = writeStructuredPacket FINGERPRINT_COMMANDPACKET [FINGERPRINT_UPLOAD, 0x01] d0;
          ((result, ackData), d2) = getStructuredPacket d1
      in if result \<noteq> FINGERPRINT_OK then (result, d2, buffer)
         else if ackData 0 \<noteq> FINGERPRINT_OK then (ackData 0, d2, buffer)
         else
           (case readPackets d2 buffer 0 False of
              Return r d3 buffer' \<Rightarrow> (r, d3, buffer')
            | Continue d3 buffer' bytesRead endReceived \<Rightarrow>
                (FINGERPRINT_OK, d3,
                 if bytesRead < TEMPLATE_SIZE
                 then memset0 buffer' bytesRead (TEMPLATE_SIZE - bytesRead)
                 else buffer')))"

section \<open>Template upload\<close>

text \<open>
  Lines 537-545 and 580-588: the same run of \<^verbatim>\<open>_serial->write\<close> calls, closed by
  \<^verbatim>\<open>flush()\<close>, for the command packet and for each data packet. \<open>len\<close> and \<open>csum\<close> (the source's \<^verbatim>\<open>sum\<close>) are
  the \<^verbatim>\<open>uint16_t\<close> values the caller computed.
\<close>

definition writePacket :: "u8 \<Rightarrow> u16 \<Rightarrow> u8 list \<Rightarrow> u16 \<Rightarrow> device \<Rightarrow> device" where
  "writePacket packetType len dat csum d =
     (let header = [0xEF, 0x01];
          address = [0xFF, 0xFF, 0xFF, 0xFF];
          d1 = serial_write header d;
          d2 = serial_write address d1;
          d3 = serial_write [packetType] d2;
          d4 = serial_write [ucast ((drop_bit 8 len) AND 0xFF)] d3;
          d5 = serial_write [ucast (len AND 0xFF)] d4;
          d6 = serial_write dat d5;
          d7 = serial_write [ucast ((drop_bit 8 csum) AND 0xFF)] d6;
          d8 = serial_write [ucast (csum AND 0xFF)] d7
      in serial_flush d8)"

text \<open>The checksum loops of lines 532-534 and 575-577: \<^verbatim>\<open>sum += byte\<close> in 16 bits.\<close>

definition addBytes :: "u16 \<Rightarrow> u8 list \<Rightarrow> u16" where
  "addBytes csum bs = foldl (\<lambda>s b. s + ucast b) csum bs"

text \<open>Lines 571-588: length, checksum and the writes for one chunk of the template.\<close>

definition sendChunk :: "u8 \<Rightarrow> u8 list \<Rightarrow> device \<Rightarrow> device" where
  "sendChunk packetType chunk d =
     (let dataLen = (of_nat (length chunk) + 2 :: u16);
          csum = addBytes (ucast packetType + dataLen) chunk
      in writePacket packetType dataLen chunk csum d)"

text \<open>
  The \<^verbatim>\<open>while (bytesSent < TEMPLATE_SIZE)\<close> loop (lines 566-594). \<^verbatim>\<open>templateData\<close> points to
  \<^verbatim>\<open>TEMPLATE_SIZE\<close> bytes; \<^verbatim>\<open>bytesSent\<close> and \<^verbatim>\<open>chunkSize\<close> stay below 513.
\<close>

function sendPackets :: "u8 list \<Rightarrow> nat \<Rightarrow> device \<Rightarrow> device" where
  "sendPackets templateData bytesSent d =
     (if bytesSent < TEMPLATE_SIZE then
        (let PACKET_SIZE = 128;
             chunkSize = min (TEMPLATE_SIZE - bytesSent) PACKET_SIZE;
             isLastPacket = (bytesSent + chunkSize \<ge> TEMPLATE_SIZE);
             packetType = (if isLastPacket then FINGERPRINT_ENDDATAPACKET
                           else FINGERPRINT_DATAPACKET);
             d' = sendChunk packetType (take chunkSize (drop bytesSent templateData)) d
         in sendPackets templateData (bytesSent + chunkSize) d')
      else d)"
  by pat_completeness auto
termination
  by (relation "measure (\<lambda>(templateData, bytesSent, d). TEMPLATE_SIZE - bytesSent)") auto

declare sendPackets.simps [simp del]

text \<open>\<^verbatim>\<open>uploadTemplateToBuffer\<close> (lines 512-598).\<close>

definition uploadTemplateToBuffer :: "u8 list \<Rightarrow> u8 \<Rightarrow> device \<Rightarrow> u8 \<times> device" where
  "uploadTemplateToBuffer templateData bufferID d0 =
     (if \<not> serial_set d0 then (FINGERPRINT_PACKETRECIEVEERR, d0)
      else
        (let cmdData = [0x09, bufferID];
             cmdLen = (of_nat (length cmdData) + 2 :: u16);
             csum = addBytes (0x01 + cmdLen) cmdData;
             d1 = writePacket 0x01 cmdLen cmdData csum d0;
             ((result, ackData), d2) = getStructuredPacket d1
         in if result \<noteq> FINGERPRINT_OK \<or> ackData 0 \<noteq> FINGERPRINT_OK then (ackData 0, d2)
            else (FINGERPRINT_OK, sendPackets templateData 0 d2)))"

section \<open>Waiting for the finger\<close>

text \<open>
  \<^verbatim>\<open>while (_sensor->getImage() != FINGERPRINT_NOFINGER) delay(100);\<close> The loop has no bound:
  \<open>None\<close> is the run that never leaves it.
\<close>

partial_function (option) waitNoFinger :: "device \<Rightarrow> device option" where
  "waitNoFinger d =
     (case getImage d of
        (p, d') \<Rightarrow> if p \<noteq> FINGERPRINT_NOFINGER then waitNoFinger d' else Some d')"

text \<open>
  \<^verbatim>\<open>while (_sensor->getImage() != FINGERPRINT_OK) { if (timeout++ > 200) return ...; delay(50); }\<close>
  (lines 197-203, 749-755, 773-779). The counter is a \<^verbatim>\<open>uint8_t\<close>. The flag is \<open>False\<close> when
  the loop was left by the \<^verbatim>\<open>return\<close>.
\<close>

function awaitFinger200 :: "u8 \<Rightarrow> device \<Rightarrow> bool \<times> device" where
  "awaitFinger200 timeout d =
     (case getImage d of
        (p, d') \<Rightarrow>
          if p \<noteq> FINGERPRINT_OK then
            (if timeout > 200 then (False, d') else awaitFinger200 (timeout + 1) d')
          else (True, d'))"
  by pat_completeness auto
termination
  by (relation "measure (\<lambda>(timeout, d). 256 - unat timeout)")
     (auto simp: word_less_nat_alt not_less unat_word_ariths)

declare awaitFinger200.simps [simp del]

text \<open>The same loop with the bound 100 (lines 694-700).\<close>

function awaitFinger100 :: "u8 \<Rightarrow> device \<Rightarrow> bool \<times> device" where
  "awaitFinger100 timeout d =
     (case getImage d of
        (p, d') \<Rightarrow>
          if p \<noteq> FINGERPRINT_OK then
            (if timeout > 100 then (False, d') else awaitFinger100 (timeout + 1) d')
          else (True, d'))"
  by pat_completeness auto
termination
  by (relation "measure (\<lambda>(timeout, d). 256 - unat timeout)")
     (auto simp: word_less_nat_alt not_less unat_word_ariths)

declare awaitFinger100.simps [simp del]

section \<open>Verification\<close>

text \<open>
  What is left of the counter of that loop: it goes down by one or two in every pass that
  does not leave the loop, also from 255, where the \<^verbatim>\<open>uint8_t\<close> wraps.
\<close>

definition budget :: "u8 \<Rightarrow> nat" where
  "budget t = (if unat t \<le> 201 then 201 - unat t else 457 - unat t)"

lemma u8_bound: "unat t < 256" for t :: u8
  using unsigned_less [of t, where 'a = nat] by simp

lemma budget_one: "budget (t + 1) < budget t" if "\<not> 200 < t" for t :: u8
proof -
  have a: "unat t \<le> 200" using that by (simp add: word_less_nat_alt)
  then have "unat (t + 1) = unat t + 1" by (simp add: unat_word_ariths)
  with a show ?thesis by (simp add: budget_def)
qed

lemma budget_two: "budget (2 + t) < budget t" if "\<not> 200 < t + 1" for t :: u8
proof (cases "t = 255")
  case True
  then show ?thesis by (simp add: budget_def)
next
  case False
  have "unat t \<noteq> 255"
  proof
    assume "unat t = 255"
    then have "of_nat (unat t) = (of_nat 255 :: u8)" by (rule arg_cong)
    then show False using False by simp
  qed
  with u8_bound [of t] have b: "unat t < 255" by simp
  then have s: "unat (t + 1) = unat t + 1" by (simp add: unat_word_ariths)
  with that have a: "unat t \<le> 199" by (simp add: word_less_nat_alt)
  then have "unat (2 + t) = unat t + 2" by (simp add: unat_word_ariths)
  with a show ?thesis by (simp add: budget_def)
qed

text \<open>
  The \<^verbatim>\<open>while (true)\<close> loop of \<^verbatim>\<open>matchWithTemplate\<close> (lines 613-640). The flag is \<open>True\<close>
  when the loop was left by a \<^verbatim>\<open>break\<close> and \<open>False\<close> when it was left by \<^verbatim>\<open>return 1\<close>.
  A conversion result other than OK, IMAGEMESS and FEATUREFAIL also leaves by \<^verbatim>\<open>break\<close>
  (line 631).
\<close>

function goodImage :: "u8 \<Rightarrow> device \<Rightarrow> bool \<times> device" where
  "goodImage timeout d0 =
     (case getImage d0 of
        (p, d1) \<Rightarrow>
          if p = FINGERPRINT_OK then
            (case image2Tz 1 d1 of
               (tempResult, d2) \<Rightarrow>
                 if tempResult = FINGERPRINT_OK then (True, d2)
                 else if tempResult = FINGERPRINT_IMAGEMESS
                         \<or> tempResult = FINGERPRINT_FEATUREFAIL then
                   (if timeout + 1 > 200 then (False, d2) else goodImage (timeout + 1 + 1) d2)
                 else (True, d2))
          else (if timeout > 200 then (False, d1) else goodImage (timeout + 1) d1))"
  by pat_completeness auto
termination
  by (relation "measure (\<lambda>(timeout, d). budget timeout)")
     (simp_all add: budget_one budget_two)

declare goodImage.simps [simp del]

text \<open>The score of lines 675 and 713: \<^verbatim>\<open>((uint16_t)data[1] << 8) | data[2]\<close>.\<close>

definition parseScore :: "(nat \<Rightarrow> u8) \<Rightarrow> u16" where
  "parseScore dat = push_bit 8 (ucast (dat 1)) OR ucast (dat 2)"

text \<open>
  \<^verbatim>\<open>matchWithTemplate\<close> (lines 601-739): the status, \<^verbatim>\<open>*score\<close> and the device at the
  return; \<open>None\<close> when a wait for the removal of the finger never ends. \<open>score\<close> is what
  \<^verbatim>\<open>*score\<close> held at the call.
\<close>

definition matchWithTemplate :: "u8 list \<Rightarrow> u16 \<Rightarrow> device \<Rightarrow> (u8 \<times> u16 \<times> device) option" where
  "matchWithTemplate storedTemplate score d0 =
     (case goodImage 0 d0 of
        (False, d1) \<Rightarrow> Some (1, score, d1)
      | (True, d1) \<Rightarrow>
         (case uploadTemplateToBuffer storedTemplate 2 d1 of
            (p, d2) \<Rightarrow>
              if p \<noteq> FINGERPRINT_OK then Some (3, score, d2)
              else
                (let matchCmd = [0x03];
                     d3 = writeStructuredPacket FINGERPRINT_COMMANDPACKET matchCmd d2
                 in case getStructuredPacket d3 of
                      ((p, matchAck), d4) \<Rightarrow>
                        if p \<noteq> FINGERPRINT_OK then Some (5, score, d4)
                        else
                          (let matchResult = matchAck 0
                           in if matchResult = FINGERPRINT_OK then
                                map_option (\<lambda>d5. (0, parseScore matchAck, d5)) (waitNoFinger d4)
                              else if matchResult = FINGERPRINT_ENROLLMISMATCH then
                                (case awaitFinger100 0 d4 of
                                   (False, d5) \<Rightarrow> Some (4, score, d5)
                                 | (True, d5) \<Rightarrow>
                                    (case image2Tz 1 d5 of
                                       (p, d6) \<Rightarrow>
                                         if p \<noteq> FINGERPRINT_OK then Some (4, score, d6)
                                         else
                                           (let d7 = writeStructuredPacket
                                                       FINGERPRINT_COMMANDPACKET matchCmd d6
                                            in case getStructuredPacket d7 of
                                                 ((p, matchAck), d8) \<Rightarrow>
                                                   if p = FINGERPRINT_OK
                                                      \<and> matchAck 0 = FINGERPRINT_OK then
                                                     map_option
                                                       (\<lambda>d9. (0, parseScore matchAck, d9))
                                                       (waitNoFinger d8)
                                                   else
                                                     map_option (\<lambda>d9. (4, score, d9))
                                                       (waitNoFinger d8))))
                              else map_option (\<lambda>d5. (4, score, d5)) (waitNoFinger d4)))))"

section \<open>Enrollment\<close>

text \<open>
  \<^verbatim>\<open>enrollAndGetTemplate\<close> (lines 742-818): the status, the device and the caller's
  \<^verbatim>\<open>templateOutput\<close> at the return; \<open>None\<close> when a wait for the removal of the finger
  never ends.
\<close>

definition enrollAndGetTemplate :: "u8 list \<Rightarrow> device \<Rightarrow> (u8 \<times> device \<times> u8 list) option" where
  "enrollAndGetTemplate templateOutput d0 =
     (case awaitFinger200 0 d0 of
        (False, d1) \<Rightarrow> Some (1, d1, templateOutput)
      | (True, d1) \<Rightarrow>
         (case image2Tz 1 d1 of
            (p, d2) \<Rightarrow>
              if p \<noteq> FINGERPRINT_OK then Some (2, d2, templateOutput)
              else
                (case waitNoFinger d2 of
                   None \<Rightarrow> None
                 | Some d3 \<Rightarrow>
                    (case awaitFinger200 0 d3 of
                       (False, d4) \<Rightarrow> Some (1, d4, templateOutput)
                     | (True, d4) \<Rightarrow>
                        (case image2Tz 2 d4 of
                           (p, d5) \<Rightarrow>
                             if p \<noteq> FINGERPRINT_OK then Some (2, d5, templateOutput)
                             else
                               (case createModel d5 of
                                  (p, d6) \<Rightarrow>
                                    if p = FINGERPRINT_OK then
                                      (case readRawTemplate d6 templateOutput of
                                         (p, d7, templateOutput') \<Rightarrow>
                                           if p \<noteq> FINGERPRINT_OK
                                           then Some (4, d7, templateOutput')
                                           else map_option (\<lambda>d8. (0, d8, templateOutput'))
                                                  (waitNoFinger d7))
                                    else if p = FINGERPRINT_ENROLLMISMATCH
                                    then Some (3, d6, templateOutput)
                                    else Some (3, d6, templateOutput)))))))"

section \<open>Hashing a template\<close>

subsection \<open>SHA-256\<close>

text \<open>
  \<^verbatim>\<open>readAndHashFingerprint\<close> hashes with the SHA-256 functions of mbedtls
  (\<^verbatim>\<open>mbedtls_sha256_starts_ret\<close> with \<^verbatim>\<open>is224 = 0\<close>, \<^verbatim>\<open>update_ret\<close>, \<^verbatim>\<open>finish_ret\<close>). That library
  implements the hash function of FIPS 180-4, which is written out here.
\<close>

type_synonym u32 = "32 word"

text \<open>
  The round constants (the first 32 bits of the fractional parts of the cube roots of the
  first 64 primes) and the initial hash value (the same of the square roots of the first
  8 primes).
\<close>

definition K256 :: "u32 list" where
  "K256 =
    [1116352408, 1899447441, 3049323471, 3921009573, 961987163, 1508970993,
     2453635748, 2870763221, 3624381080, 310598401, 607225278, 1426881987,
     1925078388, 2162078206, 2614888103, 3248222580, 3835390401, 4022224774,
     264347078, 604807628, 770255983, 1249150122, 1555081692, 1996064986,
     2554220882, 2821834349, 2952996808, 3210313671, 3336571891, 3584528711,
     113926993, 338241895, 666307205, 773529912, 1294757372, 1396182291,
     1695183700, 1986661051, 2177026350, 2456956037, 2730485921, 2820302411,
     3259730800, 3345764771, 3516065817, 3600352804, 4094571909, 275423344,
     430227734, 506948616, 659060556, 883997877, 958139571, 1322822218,
     1537002063, 1747873779, 1955562222, 2024104815, 2227730452, 2361852424,
     2428436474, 2756734187, 3204031479, 3329325298]"

definition H256 :: "u32 list" where
  "H256 =
    [1779033703, 3144134277, 1013904242, 2773480762, 1359893119, 2600822924,
     528734635, 1541459225]"

text \<open>The six logical functions on 32-bit words.\<close>

definition rotr :: "nat \<Rightarrow> u32 \<Rightarrow> u32" where
  "rotr n x = drop_bit n x OR push_bit (32 - n) x"

definition Ch :: "u32 \<Rightarrow> u32 \<Rightarrow> u32 \<Rightarrow> u32" where
  "Ch x y z = (x AND y) XOR (NOT x AND z)"

definition Maj :: "u32 \<Rightarrow> u32 \<Rightarrow> u32 \<Rightarrow> u32" where
  "Maj x y z = (x AND y) XOR (x AND z) XOR (y AND z)"

definition Sigma0 :: "u32 \<Rightarrow> u32" where
  "Sigma0 x = rotr 2 x XOR rotr 13 x XOR rotr 22 x"

definition Sigma1 :: "u32 \<Rightarrow> u32" where
  "Sigma1 x = rotr 6 x XOR rotr 11 x XOR rotr 25 x"

definition sigma0 :: "u32 \<Rightarrow> u32" where
  "sigma0 x = rotr 7 x XOR rotr 18 x XOR drop_bit 3 x"

definition sigma1 :: "u32 \<Rightarrow> u32" where
  "sigma1 x = rotr 17 x XOR rotr 19 x XOR drop_bit 10 x"

text \<open>Big-endian words, blocks, the message schedule, one round, one block.\<close>

fun be32 :: "u8 list \<Rightarrow> u32" where
  "be32 [a, b, c, d] = push_bit 24 (ucast a) OR push_bit 16 (ucast b) OR push_bit 8 (ucast c) OR ucast d"
| "be32 _ = 0"

definition bytes32 :: "u32 \<Rightarrow> u8 list" where
  "bytes32 w = [ucast (drop_bit 24 w), ucast (drop_bit 16 w), ucast (drop_bit 8 w), ucast w]"

fun chunks :: "nat \<Rightarrow> nat \<Rightarrow> 'a list \<Rightarrow> 'a list list" where
  "chunks 0 m xs = []"
| "chunks (Suc k) m xs = take m xs # chunks k m (drop m xs)"

fun schedule :: "nat \<Rightarrow> u32 list \<Rightarrow> u32 list" where
  "schedule 0 w = w"
| "schedule (Suc k) w =
     (let t = length w
      in schedule k (w @ [sigma1 (w ! (t - 2)) + w ! (t - 7) + sigma0 (w ! (t - 15)) + w ! (t - 16)]))"

fun round256 :: "u32 list \<Rightarrow> u32 \<times> u32 \<Rightarrow> u32 list" where
  "round256 [a, b, c, d, e, f, g, h] (k, w) =
     (let T1 = h + Sigma1 e + Ch e f g + k + w;
          T2 = Sigma0 a + Maj a b c
      in [T1 + T2, a, b, c, d + T1, e, f, g])"
| "round256 s _ = s"

definition compress :: "u32 list \<Rightarrow> u8 list \<Rightarrow> u32 list" where
  "compress hs block =
     (let w = schedule 48 (map be32 (chunks 16 4 block))
      in map2 (+) hs (foldl round256 hs (zip K256 w)))"

text \<open>
  Padding: the bit 1, zeros up to 56 modulo 64 bytes, the length in bits as 64 bits
  big-endian.
\<close>

definition pad256 :: "u8 list \<Rightarrow> u8 list" where
  "pad256 msg =
     (let l = length msg;
          k = (119 - l mod 64) mod 64;
          bits = (of_nat (8 * l) :: 64 word)
      in msg @ [0x80] @ replicate k 0 @ map (\<lambda>i. ucast (drop_bit (8 * (7 - i)) bits)) [0..<8])"

definition sha256 :: "u8 list \<Rightarrow> u8 list" where
  "sha256 msg =
     (let p = pad256 msg
      in concat (map bytes32 (foldl compress H256 (chunks (length p div 64) 64 p))))"

subsection \<open>The functions of the class\<close>

text \<open>
  \<^verbatim>\<open>_getTemplateBytes\<close> (lines 193-234): status, device and \<^verbatim>\<open>templateBuffer\<close> at the
  return; \<open>None\<close> when a wait for the removal of the finger never ends. The counter of the
  first loop is the \<^verbatim>\<open>uint8_t p\<close>.
\<close>

definition getTemplateBytes :: "u8 list \<Rightarrow> device \<Rightarrow> (u8 \<times> device \<times> u8 list) option" where
  "getTemplateBytes templateBuffer d0 =
     (case awaitFinger200 0 d0 of
        (False, d1) \<Rightarrow> Some (1, d1, templateBuffer)
      | (True, d1) \<Rightarrow>
         (case image2Tz 1 d1 of
            (p, d2) \<Rightarrow>
              if p \<noteq> FINGERPRINT_OK
              then map_option (\<lambda>d3. (2, d3, templateBuffer)) (waitNoFinger d2)
              else
                (case readRawTemplate d2 templateBuffer of
                   (result, d3, templateBuffer') \<Rightarrow>
                     if result \<noteq> FINGERPRINT_OK
                     then map_option (\<lambda>d4. (3, d4, templateBuffer')) (waitNoFinger d3)
                     else map_option (\<lambda>d4. (0, d4, templateBuffer')) (waitNoFinger d3))))"

text \<open>
  Lines 245-251: the digest of the \<^verbatim>\<open>TEMPLATE_SIZE\<close> bytes of \<^verbatim>\<open>templateBuffer\<close>.
\<close>

definition computeDigest :: "u8 list \<Rightarrow> u8 list" where
  "computeDigest templateBuffer = sha256 (take TEMPLATE_SIZE templateBuffer)"

text \<open>
  \<^verbatim>\<open>readAndHashFingerprint\<close> (lines 236-257): status, device and \<^verbatim>\<open>hashOutput\<close> at the
  return. \<open>templateBuffer\<close> is what the local array of that name holds before it is
  written: the code does not initialise it.
\<close>

definition readAndHashFingerprint ::
  "u8 list \<Rightarrow> u8 list \<Rightarrow> device \<Rightarrow> (u8 \<times> device \<times> u8 list) option" where
  "readAndHashFingerprint templateBuffer hashOutput d0 =
     (case getTemplateBytes templateBuffer d0 of
        None \<Rightarrow> None
      | Some (result, d1, templateBuffer') \<Rightarrow>
          if result \<noteq> 0 then Some (result, d1, hashOutput)
          else Some (0, d1, computeDigest templateBuffer' @ drop HASH_SIZE hashOutput))"

text \<open>\<^verbatim>\<open>compareHashes\<close> (lines 259-261): \<^verbatim>\<open>memcmp\<close> over \<^verbatim>\<open>HASH_SIZE\<close> bytes.\<close>

definition compareHashes :: "u8 list \<Rightarrow> u8 list \<Rightarrow> bool" where
  "compareHashes hash1 hash2 = (take HASH_SIZE hash1 = take HASH_SIZE hash2)"

section \<open>The frame format of the specification\<close>

text \<open>
  The encoding as the specification words it: header, address, type, big-endian length
  (payload length + 2), payload, big-endian checksum (sum of type + length + each payload
  byte, truncated to 16 bits).
\<close>

definition be16 :: "nat \<Rightarrow> u8 list" where
  "be16 n = [of_nat (n div 256), of_nat (n mod 256)]"

definition spec_checksum :: "u8 \<Rightarrow> u8 list \<Rightarrow> nat" where
  "spec_checksum ty payload =
     (unat ty + (length payload + 2) + sum_list (map unat payload)) mod 2 ^ 16"

definition spec_encode :: "u8 list \<Rightarrow> u8 \<Rightarrow> u8 list \<Rightarrow> u8 list" where
  "spec_encode address ty payload =
     [0xEF, 0x01] @ address @ [ty] @ be16 (length payload + 2) @ payload
     @ be16 (spec_checksum ty payload)"

text \<open>The type byte and the payload of a frame laid out like that.\<close>

definition frame_type :: "u8 list \<Rightarrow> u8" where
  "frame_type f = f ! 6"

definition frame_payload :: "u8 list \<Rightarrow> u8 list" where
  "frame_payload f = take (length f - 11) (drop 9 f)"

section \<open>Runs of the download loop\<close>

text \<open>
  \<open>loop_reaches s t\<close>: the \<^verbatim>\<open>while\<close> loop of \<^verbatim>\<open>_readRawTemplate\<close>, started in state \<open>s\<close>
  (device, buffer, \<^verbatim>\<open>bytesRead\<close>, \<^verbatim>\<open>endReceived\<close>), is at the top of the loop in state \<open>t\<close>
  after some number of complete passes.
\<close>

inductive loop_reaches ::
  "device \<times> u8 list \<times> nat \<times> bool \<Rightarrow> device \<times> u8 list \<times> nat \<times> bool \<Rightarrow> bool" where
  here: "loop_reaches s s"
| pass: "\<not> e \<Longrightarrow> n < TEMPLATE_SIZE \<Longrightarrow> readPacket d buffer n = Continue d' buffer' n' e'
         \<Longrightarrow> loop_reaches (d', buffer', n', e') t \<Longrightarrow> loop_reaches (d, buffer, n, e) t"

text \<open>
  \<open>loop_ends d buffer n e\<close>: from this state the loop makes no further complete pass: the
  loop condition fails (\<^verbatim>\<open>endReceived\<close> is set or the buffer is full), or the body returns.
\<close>

definition loop_ends :: "device \<Rightarrow> u8 list \<Rightarrow> nat \<Rightarrow> bool \<Rightarrow> bool" where
  "loop_ends d buffer n e \<longleftrightarrow>
     e \<or> TEMPLATE_SIZE \<le> n
     \<or> (case readPacket d buffer n of Return r d' buffer' \<Rightarrow> True
         | Continue d' buffer' n' e' \<Rightarrow> False)"

text \<open>
  The bytes of a run of Data frames of the specification, given as address and payload.
\<close>

definition data_frames :: "(u8 list \<times> u8 list) list \<Rightarrow> u8 list" where
  "data_frames fs = concat (map (\<lambda>(a, p). spec_encode a FINGERPRINT_DATAPACKET p) fs)"

text \<open>
  \<open>tracks rx0 d buffer n\<close>: the device has consumed a prefix of the outcomes \<open>rx0\<close>, and the
  first \<open>n\<close> bytes of the buffer are bytes of that prefix, in the order of their arrival.
\<close>

definition tracks :: "u8 option list \<Rightarrow> device \<Rightarrow> u8 list \<Rightarrow> nat \<Rightarrow> bool" where
  "tracks rx0 d buffer n \<longleftrightarrow>
     length buffer = TEMPLATE_SIZE \<and> n \<le> TEMPLATE_SIZE
     \<and> (\<exists>c. rx0 = c @ rx d \<and> subseq (map Some (take n buffer)) c)"

section \<open>Devices and streams for the examples\<close>

text \<open>
  A device with the serial stream attached that sends nothing, reports no finger and
  answers every command with success.
\<close>

definition quiet_device :: device where
  "quiet_device =
     \<lparr>serial_set = True, rx = [], pending = [], flushed = [],
      image = (\<lambda>k. FINGERPRINT_NOFINGER), image_calls = 0,
      tz = (\<lambda>k. FINGERPRINT_OK), tz_slots = [],
      model = (\<lambda>k. FINGERPRINT_OK), model_calls = 0,
      ack = (\<lambda>k. (FINGERPRINT_OK, \<lambda>i. 0)), ack_calls = 0, sent = []\<rparr>"

text \<open>Three data frames with 128, 128 and 44 payload bytes 0xAA, and nothing after them.\<close>

definition stream300 :: "u8 option list" where
  "stream300 =
     map Some (spec_encode [0xFF, 0xFF, 0xFF, 0xFF] FINGERPRINT_DATAPACKET (replicate 128 0xAA))
     @ map Some (spec_encode [0xFF, 0xFF, 0xFF, 0xFF] FINGERPRINT_DATAPACKET (replicate 128 0xAA))
     @ map Some (spec_encode [0xFF, 0xFF, 0xFF, 0xFF] FINGERPRINT_DATAPACKET (replicate 44 0xAA))"

text \<open>
  A whole template of 512 bytes 0xAA: three Data frames and one EndData frame with 128
  bytes each.
\<close>

definition stream512 :: "u8 option list" where
  "stream512 =
     map Some
       (data_frames
          [([0xFF, 0xFF, 0xFF, 0xFF], replicate 128 0xAA),
           ([0xFF, 0xFF, 0xFF, 0xFF], replicate 128 0xAA),
           ([0xFF, 0xFF, 0xFF, 0xFF], replicate 128 0xAA)]
        @ spec_encode [0xFF, 0xFF, 0xFF, 0xFF] FINGERPRINT_ENDDATAPACKET (replicate 128 0xAA))"

text \<open>One EndData frame with the payload 1, 2, 3.\<close>

definition stream_end3 :: "u8 option list" where
  "stream_end3 = map Some (spec_encode [0xFF, 0xFF, 0xFF, 0xFF] FINGERPRINT_ENDDATAPACKET [1, 2, 3])"

text \<open>A valid frame with the address 0, of type Data, with the one payload byte 0x11.\<close>

definition frame_addr0 :: "u8 list" where
  "frame_addr0 = spec_encode [0x00, 0x00, 0x00, 0x00] FINGERPRINT_DATAPACKET [0x11]"

text \<open>
  A device for the verification: the finger is on the sensor for the first two polls and
  gone from the third; every conversion succeeds; the command of the upload is
  acknowledged; the first match response has result code \<open>r1\<close> and score 0x012C, the second
  has result code \<open>r2\<close> and score 0x0064.
\<close>

definition match_device :: "u8 \<Rightarrow> u8 \<Rightarrow> device" where
  "match_device r1 r2 =
     quiet_device
       \<lparr>image := (\<lambda>k. if k < 2 then FINGERPRINT_OK else FINGERPRINT_NOFINGER),
        ack := (\<lambda>k. if k = 0 then (FINGERPRINT_OK, \<lambda>i. 0)
                   else if k = 1
                   then (FINGERPRINT_OK, \<lambda>i. if i = 0 then r1 else if i = 1 then 0x01 else 0x2C)
                   else (FINGERPRINT_OK, \<lambda>i. if i = 0 then r2 else if i = 1 then 0x00 else 0x64))\<rparr>"

text \<open>
  A device for the verification on which the finger is lifted after the first scan: the
  first poll reports an image and every later poll reports no finger; every conversion
  succeeds; the command of the upload is acknowledged; every match response has the result
  code \<^verbatim>\<open>FINGERPRINT_ENROLLMISMATCH\<close>.
\<close>

definition lost_device :: device where
  "lost_device =
     quiet_device
       \<lparr>image := (\<lambda>k. if k = 0 then FINGERPRINT_OK else FINGERPRINT_NOFINGER),
        ack := (\<lambda>k. if k = 0 then (FINGERPRINT_OK, \<lambda>i. 0)
                   else (FINGERPRINT_OK, \<lambda>i. if i = 0 then FINGERPRINT_ENROLLMISMATCH else 0))\<rparr>"

text \<open>
  A device on which the finger stays for ever: every poll reports an image. The first
  conversion succeeds and the later ones fail; the command of the upload is acknowledged;
  every match response has the result code \<^verbatim>\<open>FINGERPRINT_ENROLLMISMATCH\<close>.
\<close>

definition stuck_device :: device where
  "stuck_device =
     quiet_device
       \<lparr>image := (\<lambda>k. FINGERPRINT_OK),
        tz := (\<lambda>k. if k = 0 then FINGERPRINT_OK else FINGERPRINT_FEATUREFAIL),
        ack := (\<lambda>k. if k = 0 then (FINGERPRINT_OK, \<lambda>i. 0)
                   else (FINGERPRINT_OK, \<lambda>i. FINGERPRINT_ENROLLMISMATCH))\<rparr>"

text \<open>
  A device for the enrollment: the finger is on the sensor at every poll but the second,
  every conversion succeeds, and \<^verbatim>\<open>createModel\<close> returns \<open>code\<close>.
\<close>

definition enroll_device :: "u8 \<Rightarrow> device" where
  "enroll_device code =
     quiet_device
       \<lparr>image := (\<lambda>k. if k = 1 then FINGERPRINT_NOFINGER else FINGERPRINT_OK),
        model := (\<lambda>k. code)\<rparr>"

text \<open>
  A device on which the finger is on the sensor at the first poll and at no later poll.
\<close>

definition one_scan_device :: device where
  "one_scan_device =
     quiet_device\<lparr>image := (\<lambda>k. if k = 0 then FINGERPRINT_OK else FINGERPRINT_NOFINGER)\<rparr>"

text \<open>
  A device for the hashing: the first poll reports an image and every later poll reports
  no finger; the conversion succeeds; the command of the download is acknowledged and the
  sensor then sends the four frames of \<open>stream512\<close>.
\<close>

definition hash_device :: device where
  "hash_device =
     quiet_device\<lparr>rx := stream512,
       image := (\<lambda>k. if k = 0 then FINGERPRINT_OK else FINGERPRINT_NOFINGER)\<rparr>"

text \<open>
  The blocks that SHA-256 sees for a template of 512 bytes 0xAA: eight times 64 bytes
  0xAA, then the block of the padding with the length 4096 bits.
\<close>

definition aa_block :: "u8 list" where
  "aa_block = replicate 64 0xAA"

definition aa_last_block :: "u8 list" where
  "aa_last_block = [0x80] @ replicate 55 0 @ [0, 0, 0, 0, 0, 0, 0x10, 0x00]"

section \<open>Properties of the template download\<close>

subsection \<open>Decoding a data frame\<close>

lemma packetLen_be16:
  "push_bit 8 (ucast (of_nat (L div 256) :: u8)) OR ucast (of_nat (L mod 256) :: u8)
   = (of_nat L :: u16)"
proof -
  have d: "L div 256 = drop_bit 8 L" by (simp add: drop_bit_eq_div)
  have m: "L mod 256 = take_bit 8 L" by (simp add: take_bit_eq_mod)
  show ?thesis
    unfolding d m
    by (rule bit_word_eqI) (auto simp: bit_simps)
qed

lemma readAddress_Some:
  "serial_set d \<Longrightarrow> rx d = map Some addr @ rest \<Longrightarrow>
   readAddress (length addr) d = (True, d\<lparr>rx := rest\<rparr>)"
proof (induction addr arbitrary: d)
  case Nil
  then show ?case by simp
next
  case (Cons a addr)
  have "readAddress (length addr) (d\<lparr>rx := map Some addr @ rest\<rparr>)
        = (True, d\<lparr>rx := map Some addr @ rest, rx := rest\<rparr>)"
    using Cons.prems by (intro Cons.IH) simp_all
  then show ?case using Cons.prems by (simp add: readByte_def)
qed

lemma readData_Some:
  "serial_set d \<Longrightarrow> rx d = map Some bs @ rest \<Longrightarrow> n + length bs \<le> length buffer \<Longrightarrow>
   length buffer = TEMPLATE_SIZE \<Longrightarrow>
   readData (length bs) d buffer n
   = (True, d\<lparr>rx := rest\<rparr>, take n buffer @ bs @ drop (n + length bs) buffer, n + length bs)"
proof (induction bs arbitrary: d buffer n)
  case Nil
  then show ?case by simp
next
  case (Cons b bs)
  have u: "buffer[n := b] = take n buffer @ b # drop (Suc n) buffer"
    using Cons.prems by (simp add: upd_conv_take_nth_drop)
  have "readData (length bs) (d\<lparr>rx := map Some bs @ rest\<rparr>) (buffer[n := b]) (Suc n)
     = (True, d\<lparr>rx := map Some bs @ rest, rx := rest\<rparr>,
        take (Suc n) (buffer[n := b]) @ bs @ drop (Suc n + length bs) (buffer[n := b]),
        Suc n + length bs)"
    using Cons.prems by (intro Cons.IH) auto
  then show ?case using Cons.prems
    by (simp add: readByte_def u add.commute)
qed

lemma readDiscard_2:
  "serial_set d \<Longrightarrow> rx d = c1 # c2 # rest \<Longrightarrow> readDiscard 2 d = d\<lparr>rx := rest\<rparr>"
  by (simp add: numeral_2_eq_2 readByte_def)

lemma readPacket_data:
  assumes ser: "serial_set d"
    and rx: "rx d = map Some ([0xEF, 0x01] @ addr @ [ty] @ be16 (length payload + 2) @ payload)
                    @ c1 # c2 # rest"
    and addr: "length addr = 4"
    and ty: "ty = FINGERPRINT_DATAPACKET \<or> ty = FINGERPRINT_ENDDATAPACKET"
    and len: "length payload + 2 < 65536"
    and fit: "n + length payload \<le> TEMPLATE_SIZE"
    and buf: "length buffer = TEMPLATE_SIZE"
  shows "readPacket d buffer n
         = Continue (d\<lparr>rx := rest\<rparr>) (take n buffer @ payload @ drop (n + length payload) buffer)
             (n + length payload) (ty = FINGERPRINT_ENDDATAPACKET)"
proof -
  define L where "L = length payload + 2"
  define r6 where "r6 = map Some payload @ c1 # c2 # rest"
  define r3 where "r3 = Some ty # map Some (be16 L) @ r6"
  define r2 where "r2 = map Some addr @ r3"
  have b1: "readByte d = (Some 0xEF, d\<lparr>rx := Some 0x01 # r2\<rparr>)"
    using ser rx by (simp add: readByte_def r2_def r3_def r6_def L_def)
  have b2: "readByte (d\<lparr>rx := Some 0x01 # r2\<rparr>) = (Some 0x01, d\<lparr>rx := r2\<rparr>)"
    using ser by (simp add: readByte_def)
  have a: "readAddress 4 (d\<lparr>rx := r2\<rparr>) = (True, d\<lparr>rx := r3\<rparr>)"
    using readAddress_Some [of "d\<lparr>rx := r2\<rparr>" addr r3] ser addr
    by (simp add: r2_def)
  have t: "readByte (d\<lparr>rx := r3\<rparr>) = (Some ty, d\<lparr>rx := map Some (be16 L) @ r6\<rparr>)"
    using ser by (simp add: readByte_def r3_def)
  have h: "readByte (d\<lparr>rx := map Some (be16 L) @ r6\<rparr>)
           = (Some (of_nat (L div 256)), d\<lparr>rx := Some (of_nat (L mod 256)) # r6\<rparr>)"
    using ser by (simp add: readByte_def be16_def)
  have l: "readByte (d\<lparr>rx := Some (of_nat (L mod 256)) # r6\<rparr>)
           = (Some (of_nat (L mod 256)), d\<lparr>rx := r6\<rparr>)"
    using ser by (simp add: readByte_def)
  have dl0: "unat (of_nat L - 2 :: u16) = length payload"
  proof -
    have "(of_nat L - 2 :: u16) = of_nat (length payload)" by (simp add: L_def)
    moreover have "unat (of_nat (length payload) :: u16) = length payload"
      using len by (simp add: unat_of_nat)
    ultimately show ?thesis by simp
  qed
  have dl: "unat ((push_bit 8 (ucast (of_nat (L div 256) :: u8))
                    OR ucast (of_nat (L mod 256) :: u8)) - 2 :: u16) = length payload"
    unfolding packetLen_be16 by (rule dl0)
  have dat: "readData (length payload) (d\<lparr>rx := r6\<rparr>) buffer n
      = (True, d\<lparr>rx := c1 # c2 # rest\<rparr>,
         take n buffer @ payload @ drop (n + length payload) buffer, n + length payload)"
    using readData_Some [of "d\<lparr>rx := r6\<rparr>" payload "c1 # c2 # rest" n buffer] ser fit buf
    by (simp add: r6_def)
  have dis: "readDiscard 2 (d\<lparr>rx := c1 # c2 # rest\<rparr>) = d\<lparr>rx := rest\<rparr>"
    using readDiscard_2 [of "d\<lparr>rx := c1 # c2 # rest\<rparr>" c1 c2 rest] ser by simp
  show ?thesis
    using ty by (auto simp add: readPacket_def Let_def b1 b2 a t h l dl dat dis)
qed

lemma readPacket_spec_encode:
  assumes "serial_set d"
    and "rx d = map Some (spec_encode addr ty payload) @ rest"
    and "length addr = 4"
    and "ty = FINGERPRINT_DATAPACKET \<or> ty = FINGERPRINT_ENDDATAPACKET"
    and "length payload + 2 < 65536"
    and "n + length payload \<le> TEMPLATE_SIZE"
    and "length buffer = TEMPLATE_SIZE"
  shows "readPacket d buffer n
         = Continue (d\<lparr>rx := rest\<rparr>) (take n buffer @ payload @ drop (n + length payload) buffer)
             (n + length payload) (ty = FINGERPRINT_ENDDATAPACKET)"
proof -
  define c where "c = spec_checksum ty payload"
  have "rx d = map Some ([0xEF, 0x01] @ addr @ [ty] @ be16 (length payload + 2) @ payload)
                @ Some (of_nat (c div 256)) # Some (of_nat (c mod 256)) # rest"
    using assms(2) by (simp add: spec_encode_def c_def be16_def)
  from readPacket_data [OF assms(1) this assms(3-7)] show ?thesis .
qed

subsection \<open>Runs of the loop\<close>

lemma loop_reaches_readPackets:
  "loop_reaches s t \<Longrightarrow>
   (case s of (d, b, n, e) \<Rightarrow> readPackets d b n e) = (case t of (d, b, n, e) \<Rightarrow> readPackets d b n e)"
proof (induction rule: loop_reaches.induct)
  case (here s)
  show ?case by simp
next
  case (pass e n d buffer d' buffer' n' e' t)
  then show ?case by (subst readPackets.simps) simp
qed

lemma readData_length:
  "readData k d buffer n = (ok, d', buffer', n') \<Longrightarrow> length buffer' = length buffer"
proof (induction k arbitrary: d buffer n)
  case 0
  then show ?case by simp
next
  case (Suc k)
  obtain x d1 where r: "readByte d = (x, d1)" by (cases "readByte d")
  from Suc r show ?case
    by (cases x) (auto split: if_splits dest!: Suc.IH)
qed

lemma readPacket_Continue_length:
  "readPacket d buffer n = Continue d' buffer' n' e \<Longrightarrow> length buffer' = length buffer"
  by (auto simp: readPacket_def Let_def split: if_splits option.splits bool.splits prod.splits
           dest: readData_length)

lemma loop_reaches_length:
  "loop_reaches s t \<Longrightarrow> length (fst (snd t)) = length (fst (snd s))"
  by (induction rule: loop_reaches.induct) (auto dest: readPacket_Continue_length)

lemma memset0_tail:
  "off + n = length buffer \<Longrightarrow> memset0 buffer off n = take off buffer @ replicate n 0"
  by (simp add: memset0_def)

lemma readPacket_header_timeout:
  assumes "fst (readByte d) = None \<or> fst (readByte (snd (readByte d))) = None"
  shows "readPacket d buffer n =
    (if 0 < n then Return FINGERPRINT_OK (snd (readByte (snd (readByte d))))
                     (memset0 buffer n (TEMPLATE_SIZE - n))
     else Return FINGERPRINT_TIMEOUT (snd (readByte (snd (readByte d)))) buffer)"
  using assms by (auto simp: readPacket_def Let_def split: prod.splits)

text \<open>
  C1. A run of \<^verbatim>\<open>_readRawTemplate\<close> whose command was acknowledged and whose loop, after any
  number of complete passes, stands at its top with \<^verbatim>\<open>bytesRead\<close> bytes stored and then
  sees one of the two header reads time out: with at least one byte stored the function
  returns \<^verbatim>\<open>FINGERPRINT_OK\<close> and the buffer holds the bytes stored so far followed by zeros
  up to 512; with no byte stored it returns \<^verbatim>\<open>FINGERPRINT_TIMEOUT\<close>.
\<close>

theorem header_timeout_policy:
  assumes len: "length buffer = TEMPLATE_SIZE"
    and ack: "ack d0 (ack_calls d0) = (FINGERPRINT_OK, ackData)" "ackData 0 = FINGERPRINT_OK"
    and start: "d1 = snd (getStructuredPacket
                  (writeStructuredPacket FINGERPRINT_COMMANDPACKET [FINGERPRINT_UPLOAD, 0x01] d0))"
    and reach: "loop_reaches (d1, buffer, 0, False) (d, buffer', bytesRead, False)"
    and room: "bytesRead < TEMPLATE_SIZE"
    and timeout: "fst (readByte d) = None \<or> fst (readByte (snd (readByte d))) = None"
  shows "readRawTemplate d0 buffer =
    (if 0 < bytesRead
     then (FINGERPRINT_OK, snd (readByte (snd (readByte d))),
           take bytesRead buffer' @ replicate (TEMPLATE_SIZE - bytesRead) 0)
     else (FINGERPRINT_TIMEOUT, snd (readByte (snd (readByte d))), buffer'))"
proof -
  have l: "length buffer' = TEMPLATE_SIZE"
    using loop_reaches_length [OF reach] len by simp
  have "readPackets d1 buffer 0 False = readPackets d buffer' bytesRead False"
    using loop_reaches_readPackets [OF reach] by simp
  also have "\<dots> = readPacket d buffer' bytesRead"
    using room readPacket_header_timeout [OF timeout, of buffer' bytesRead]
    by (simp add: readPackets.simps [of d buffer' bytesRead False])
  finally have loop: "readPackets d1 buffer 0 False = readPacket d buffer' bytesRead" .
  have m: "memset0 buffer' bytesRead (TEMPLATE_SIZE - bytesRead)
           = take bytesRead buffer' @ replicate (TEMPLATE_SIZE - bytesRead) 0"
    using room l by (simp add: memset0_tail)
  show ?thesis
    using ack start loop m readPacket_header_timeout [OF timeout, of buffer' bytesRead]
    by (simp add: readRawTemplate_def getStructuredPacket_def writeStructuredPacket_def Let_def)
qed

text \<open>
  The theorem at a stream of three data frames with 128, 128 and 44 bytes and nothing
  after them (300 bytes, then zeros), and at a stream that delivers nothing.
\<close>

theorem header_timeout_policy_witness:
  "readRawTemplate (quiet_device\<lparr>rx := stream300\<rparr>) (replicate 512 0x55)
     = (FINGERPRINT_OK,
        quiet_device\<lparr>ack_calls := 1, sent := [(FINGERPRINT_COMMANDPACKET, [FINGERPRINT_UPLOAD, 0x01])]\<rparr>,
        replicate 300 0xAA @ replicate 212 0)
   \<and> fst (readRawTemplate quiet_device (replicate 512 0x55)) = FINGERPRINT_TIMEOUT"
proof -
  define A :: "u8 list" where "A = [0xFF, 0xFF, 0xFF, 0xFF]"
  define P :: "u8 list" where "P = replicate 128 0xAA"
  define Q :: "u8 list" where "Q = replicate 44 0xAA"
  define b0 :: "u8 list" where "b0 = replicate 512 0x55"
  define d1 where "d1 = quiet_device\<lparr>rx := stream300, ack_calls := 1,
     sent := [(FINGERPRINT_COMMANDPACKET, [FINGERPRINT_UPLOAD, 0x01])]\<rparr>"
  define r2 where "r2 = map Some (spec_encode A 2 Q)"
  define r1 where "r1 = map Some (spec_encode A 2 P) @ r2"
  have s: "serial_set d1" "rx d1 = map Some (spec_encode A 2 P) @ r1"
    by (simp_all add: d1_def quiet_device_def stream300_def r1_def r2_def A_def P_def Q_def)
  have lens: "length A = 4" "length P = 128" "length Q = 44" "length b0 = 512"
    by (simp_all add: A_def P_def Q_def b0_def)
  define b1 where "b1 = take 0 b0 @ P @ drop (0 + length P) b0"
  define b2 where "b2 = take 128 b1 @ P @ drop (128 + length P) b1"
  define b3 where "b3 = take 256 b2 @ Q @ drop (256 + length Q) b2"
  have blen: "length b1 = 512" "length b2 = 512"
    by (simp_all add: b1_def b2_def lens)
  have p1: "readPacket d1 b0 0 = Continue (d1\<lparr>rx := r1\<rparr>) b1 128 False"
    using readPacket_spec_encode [of d1 A 2 P r1 0 b0] s lens by (simp add: b1_def)
  have p2: "readPacket (d1\<lparr>rx := r1\<rparr>) b1 128 = Continue (d1\<lparr>rx := r2\<rparr>) b2 256 False"
    using readPacket_spec_encode [of "d1\<lparr>rx := r1\<rparr>" A 2 P r2 128 b1] s lens blen
    by (simp add: b2_def r1_def)
  have p3: "readPacket (d1\<lparr>rx := r2\<rparr>) b2 256 = Continue (d1\<lparr>rx := []\<rparr>) b3 300 False"
    using readPacket_spec_encode [of "d1\<lparr>rx := r2\<rparr>" A 2 Q "[]" 256 b2] s lens blen
    by (simp add: b3_def r2_def)
  have reach: "loop_reaches (d1, b0, 0, False) (d1\<lparr>rx := []\<rparr>, b3, 300, False)"
    by (rule pass [OF _ _ p1] pass [OF _ _ p2] pass [OF _ _ p3] here | simp)+
  have b3: "take 300 b3 = replicate 300 0xAA"
    by (simp add: b3_def b2_def b1_def b0_def P_def Q_def replicate_add [symmetric])
  have one: "readRawTemplate (quiet_device\<lparr>rx := stream300\<rparr>) b0
     = (FINGERPRINT_OK, d1\<lparr>rx := []\<rparr>, replicate 300 0xAA @ replicate 212 0)"
    using header_timeout_policy [of b0 "quiet_device\<lparr>rx := stream300\<rparr>" "\<lambda>i. 0" d1
        "d1\<lparr>rx := []\<rparr>" b3 300] reach lens b3
    by (simp add: d1_def quiet_device_def getStructuredPacket_def writeStructuredPacket_def
        readByte_def)
  have two: "fst (readRawTemplate quiet_device b0) = FINGERPRINT_TIMEOUT"
    using header_timeout_policy [of b0 quiet_device "\<lambda>i. 0"
        "quiet_device\<lparr>ack_calls := 1,
           sent := [(FINGERPRINT_COMMANDPACKET, [FINGERPRINT_UPLOAD, 0x01])]\<rparr>"
        "quiet_device\<lparr>ack_calls := 1,
           sent := [(FINGERPRINT_COMMANDPACKET, [FINGERPRINT_UPLOAD, 0x01])]\<rparr>" b0 0] lens
    by (simp add: quiet_device_def getStructuredPacket_def writeStructuredPacket_def
        readByte_def here)
  show ?thesis using one two by (simp add: b0_def d1_def quiet_device_def)
qed

subsection \<open>What a successful download leaves in the buffer\<close>

lemma readByte_consumes: "readByte d = (x, d') \<Longrightarrow> \<exists>c. rx d = c @ rx d'"
  by (auto simp: readByte_def split: if_splits list.splits)

lemma readByte_Some_consumes: "readByte d = (Some v, d') \<Longrightarrow> rx d = Some v # rx d'"
  by (auto simp: readByte_def split: if_splits list.splits)

lemma readAddress_consumes: "readAddress k d = (ok, d') \<Longrightarrow> \<exists>c. rx d = c @ rx d'"
proof (induction k arbitrary: d)
  case 0
  then show ?case by simp
next
  case (Suc k)
  obtain x d1 where r: "readByte d = (x, d1)" by (cases "readByte d")
  from readByte_consumes [OF r] obtain c where c: "rx d = c @ rx d1" ..
  show ?case
  proof (cases x)
    case None
    with Suc.prems r c show ?thesis by auto
  next
    case (Some v)
    with Suc.prems r have "readAddress k d1 = (ok, d')" by simp
    from Suc.IH [OF this] obtain c' where "rx d1 = c' @ rx d'" ..
    with c have "rx d = (c @ c') @ rx d'" by simp
    then show ?thesis ..
  qed
qed

lemma readDiscard_consumes: "\<exists>c. rx d = c @ rx (readDiscard k d)"
proof (induction k arbitrary: d)
  case 0
  show ?case by simp
next
  case (Suc k)
  obtain x d1 where r: "readByte d = (x, d1)" by (cases "readByte d")
  from readByte_consumes [OF r] obtain c where c: "rx d = c @ rx d1" ..
  from Suc.IH [of d1] obtain c' where "rx d1 = c' @ rx (readDiscard k d1)" ..
  with c r have "rx d = (c @ c') @ rx (readDiscard (Suc k) d)" by simp
  then show ?case ..
qed

lemma readData_consumes:
  assumes "readData k d buffer n = (ok, d', buffer', n')"
    and "length buffer = TEMPLATE_SIZE" and "n \<le> TEMPLATE_SIZE"
  shows "\<exists>c bs. rx d = c @ rx d' \<and> subseq (map Some bs) c \<and> n' = n + length bs
           \<and> n' \<le> TEMPLATE_SIZE \<and> buffer' = take n buffer @ bs @ drop n' buffer"
  using assms
proof (induction k arbitrary: d buffer n)
  case 0
  then have "rx d = [] @ rx d' \<and> subseq (map Some []) [] \<and> n' = n + length ([] :: u8 list)
      \<and> n' \<le> TEMPLATE_SIZE \<and> buffer' = take n buffer @ [] @ drop n' buffer"
    by simp
  then show ?case by blast
next
  case (Suc k)
  show ?case
  proof (cases "n < TEMPLATE_SIZE")
    case False
    with Suc.prems have "rx d = [] @ rx d' \<and> subseq (map Some []) [] \<and> n' = n + length ([] :: u8 list)
      \<and> n' \<le> TEMPLATE_SIZE \<and> buffer' = take n buffer @ [] @ drop n' buffer"
      by simp
    then show ?thesis by blast
  next
    case True
    obtain x d1 where r: "readByte d = (x, d1)" by (cases "readByte d")
    show ?thesis
    proof (cases x)
      case None
      from readByte_consumes [OF r] obtain c where c: "rx d = c @ rx d1" ..
      with None Suc.prems True r
      have "rx d = c @ rx d' \<and> subseq (map Some []) c \<and> n' = n + length ([] :: u8 list)
        \<and> n' \<le> TEMPLATE_SIZE \<and> buffer' = take n buffer @ [] @ drop n' buffer"
        by simp
      then show ?thesis by blast
    next
      case (Some v)
      with Suc.prems True r
      have rec: "readData k d1 (buffer[n := v]) (Suc n) = (ok, d', buffer', n')" by simp
      have "length (buffer[n := v]) = TEMPLATE_SIZE" "Suc n \<le> TEMPLATE_SIZE"
        using Suc.prems True by simp_all
      from Suc.IH [OF rec this] obtain c bs where
        ih: "rx d1 = c @ rx d'" "subseq (map Some bs) c" "n' = Suc n + length bs"
            "n' \<le> TEMPLATE_SIZE" "buffer' = take (Suc n) (buffer[n := v]) @ bs @ drop n' (buffer[n := v])"
        by blast
      have c: "rx d = (Some v # c) @ rx d'"
        using readByte_Some_consumes r Some ih(1) by simp
      have b: "buffer' = take n buffer @ (v # bs) @ drop n' buffer"
        using ih(3,5) Suc.prems True by (simp add: take_Suc_conv_app_nth)
      have "subseq (map Some (v # bs)) (Some v # c)" using ih(2) by simp
      with c b ih(3,4) have "rx d = (Some v # c) @ rx d' \<and> subseq (map Some (v # bs)) (Some v # c)
         \<and> n' = n + length (v # bs) \<and> n' \<le> TEMPLATE_SIZE
         \<and> buffer' = take n buffer @ (v # bs) @ drop n' buffer"
        by simp
      then show ?thesis by blast
    qed
  qed
qed

lemma readPacket_Continue_tracks:
  assumes step: "readPacket d buffer n = Continue d' buffer' n' e"
    and tr: "tracks rx0 d buffer n"
  shows "tracks rx0 d' buffer' n'"
proof -
  obtain b1 d1 where r1: "readByte d = (b1, d1)" by (cases "readByte d")
  obtain b2 d2 where r2: "readByte d1 = (b2, d2)" by (cases "readByte d1")
  obtain ok d3 where r3: "readAddress 4 d2 = (ok, d3)" by (cases "readAddress 4 d2")
  obtain t d4 where r4: "readByte d3 = (t, d4)" by (cases "readByte d3")
  obtain hi d5 where r5: "readByte d4 = (hi, d5)" by (cases "readByte d4")
  obtain lo d6 where r6: "readByte d5 = (lo, d6)" by (cases "readByte d5")
  from step r1 r2 r3 r4 r5 r6 obtain k d7 where
    r7: "readData k d6 buffer n = (True, d7, buffer', n')" and d': "d' = readDiscard 2 d7"
    by (auto simp: readPacket_def Let_def split: if_splits option.splits bool.splits prod.splits)
  from tr obtain c0 where
    len: "length buffer = TEMPLATE_SIZE" and n: "n \<le> TEMPLATE_SIZE"
    and c0: "rx0 = c0 @ rx d" "subseq (map Some (take n buffer)) c0"
    by (auto simp: tracks_def)
  from readByte_consumes [OF r1] obtain c1 where c1: "rx d = c1 @ rx d1" ..
  from readByte_consumes [OF r2] obtain c2 where c2: "rx d1 = c2 @ rx d2" ..
  from readAddress_consumes [OF r3] obtain c3 where c3: "rx d2 = c3 @ rx d3" ..
  from readByte_consumes [OF r4] obtain c4 where c4: "rx d3 = c4 @ rx d4" ..
  from readByte_consumes [OF r5] obtain c5 where c5: "rx d4 = c5 @ rx d5" ..
  from readByte_consumes [OF r6] obtain c6 where c6: "rx d5 = c6 @ rx d6" ..
  from readData_consumes [OF r7 len n] obtain c7 bs where
    c7: "rx d6 = c7 @ rx d7" "subseq (map Some bs) c7" and n': "n' = n + length bs"
    "n' \<le> TEMPLATE_SIZE" and b': "buffer' = take n buffer @ bs @ drop n' buffer"
    by blast
  from readDiscard_consumes [of d7 2] d' obtain c8 where c8: "rx d7 = c8 @ rx d'" by blast
  have whole: "rx0 = (c0 @ (c1 @ c2 @ c3 @ c4 @ c5 @ c6) @ c7 @ c8) @ rx d'"
    using c0(1) c1 c2 c3 c4 c5 c6 c7(1) c8 by simp
  have tk: "take n' buffer' = take n buffer @ bs"
    using b' n' len n by simp
  have "subseq (map Some (take n buffer) @ map Some bs) (c0 @ ((c1 @ c2 @ c3 @ c4 @ c5 @ c6) @ c7 @ c8))"
  proof (rule list_emb_append_mono [OF c0(2)])
    have "subseq (map Some bs) (c7 @ c8)" using c7(2) by (rule list_emb_prefix)
    then show "subseq (map Some bs) ((c1 @ c2 @ c3 @ c4 @ c5 @ c6) @ c7 @ c8)"
      by (rule list_emb_append2)
  qed
  then have "subseq (map Some (take n' buffer')) (c0 @ (c1 @ c2 @ c3 @ c4 @ c5 @ c6) @ c7 @ c8)"
    by (simp add: tk)
  moreover have "length buffer' = TEMPLATE_SIZE" using b' n' len n by simp
  ultimately show ?thesis using whole n'(2) unfolding tracks_def by blast
qed

lemma readPacket_Return_OK:
  assumes "readPacket d buffer n = Return FINGERPRINT_OK d' buffer'"
  shows "0 < n \<and> buffer' = memset0 buffer n (TEMPLATE_SIZE - n)"
  using assms
  by (auto simp: readPacket_def Let_def split: if_splits option.splits bool.splits prod.splits)


lemma readPackets_final:
  "tracks rx0 d buffer n \<Longrightarrow>
   \<exists>dk bk nk ek.
      loop_reaches (d, buffer, n, e) (dk, bk, nk, ek) \<and> tracks rx0 dk bk nk
    \<and> (case readPackets d buffer n e of
          Return r d' buffer' \<Rightarrow>
            \<not> ek \<and> nk < TEMPLATE_SIZE \<and> readPacket dk bk nk = Return r d' buffer'
        | Continue d' buffer' n' e' \<Rightarrow>
            (dk, bk, nk, ek) = (d', buffer', n', e') \<and> (e' \<or> n' = TEMPLATE_SIZE))"
proof (induction d buffer n e rule: readPackets.induct)
  case (1 d buffer n e)
  show ?case
  proof (cases "\<not> e \<and> n < TEMPLATE_SIZE")
    case False
    have "readPackets d buffer n e = Continue d buffer n e"
      using False by (subst readPackets.simps) auto
    moreover have "e \<or> n = TEMPLATE_SIZE"
      using False "1.prems" by (auto simp: tracks_def)
    ultimately show ?thesis
      using "1.prems" here [of "(d, buffer, n, e)"] by auto
  next
    case True
    show ?thesis
    proof (cases "readPacket d buffer n")
      case (Return r d' buffer')
      have "readPackets d buffer n e = Return r d' buffer'"
        using True Return by (subst readPackets.simps) simp
      then show ?thesis
        using "1.prems" True Return here [of "(d, buffer, n, e)"] by auto
    next
      case (Continue d' buffer' n' e')
      have run: "readPackets d buffer n e = readPackets d' buffer' n' e'"
        using True Continue by (subst readPackets.simps) simp
      from readPacket_Continue_tracks [OF Continue "1.prems"]
      have "tracks rx0 d' buffer' n'" .
      from "1.IH" [OF True Continue this] obtain dk bk nk ek where
        r: "loop_reaches (d', buffer', n', e') (dk, bk, nk, ek)" and t: "tracks rx0 dk bk nk"
        and f: "case readPackets d' buffer' n' e' of
          Return r d' buffer' \<Rightarrow>
            \<not> ek \<and> nk < TEMPLATE_SIZE \<and> readPacket dk bk nk = Return r d' buffer'
        | Continue d' buffer' n' e' \<Rightarrow>
            (dk, bk, nk, ek) = (d', buffer', n', e') \<and> (e' \<or> n' = TEMPLATE_SIZE)"
        by blast
      have "loop_reaches (d, buffer, n, e) (dk, bk, nk, ek)"
        using True Continue r by (intro pass [of e n d buffer d' buffer' n' e']) simp_all
      with t f show ?thesis unfolding run by blast
    qed
  qed
qed

lemma tracks_payload:
  assumes "tracks rx0 d b m"
  shows "length (take m b) = m \<and> m \<le> TEMPLATE_SIZE \<and> subseq (map Some (take m b)) rx0"
proof -
  from assms obtain c where
    l: "length b = TEMPLATE_SIZE" "m \<le> TEMPLATE_SIZE" and c: "rx0 = c @ rx d"
    "subseq (map Some (take m b)) c"
    by (auto simp: tracks_def)
  from c(2) have "subseq (map Some (take m b)) (c @ rx d)" by (rule list_emb_prefix)
  with l c(1) show ?thesis by simp
qed

lemma loop_reaches_tracks:
  "loop_reaches s t \<Longrightarrow>
   (case s of (d, b, n, e) \<Rightarrow> tracks rx0 d b n) \<Longrightarrow> (case t of (d, b, n, e) \<Rightarrow> tracks rx0 d b n)"
proof (induction rule: loop_reaches.induct)
  case (here s)
  then show ?case .
next
  case (pass e n d buffer d' buffer' n' e' t)
  from pass.prems have "tracks rx0 d buffer n" by simp
  from readPacket_Continue_tracks [OF pass.hyps(3) this] have "tracks rx0 d' buffer' n'" .
  then show ?case by (intro pass.IH) simp
qed

lemma loop_reaches_trans:
  "loop_reaches s t \<Longrightarrow> loop_reaches t u \<Longrightarrow> loop_reaches s u"
proof (induction rule: loop_reaches.induct)
  case (here s)
  then show ?case .
next
  case (pass e n d buffer d' buffer' n' e' t)
  from pass.IH [OF pass.prems] pass.hyps(1-3) show ?case
    by (rule loop_reaches.pass [rotated 3])
qed

text \<open>A run of Data frames that leaves room in the buffer: one pass of the loop for each.\<close>

lemma loop_reaches_data_frames:
  assumes "serial_set d"
    and "rx d = map Some (data_frames fs) @ rest"
    and "\<forall>f\<in>set fs. length (fst f) = 4"
    and "n + length (concat (map snd fs)) < TEMPLATE_SIZE"
    and "length buffer = TEMPLATE_SIZE"
  shows "loop_reaches (d, buffer, n, False)
           (d\<lparr>rx := rest\<rparr>,
            take n buffer @ concat (map snd fs) @ drop (n + length (concat (map snd fs))) buffer,
            n + length (concat (map snd fs)), False)"
  using assms
proof (induction fs arbitrary: d buffer n)
  case Nil
  then have "d\<lparr>rx := rest\<rparr> = d" by (simp add: data_frames_def)
  then show ?case by (simp add: here)
next
  case (Cons f fs)
  obtain a p where f: "f = (a, p)" by (cases f)
  define m where "m = length (concat (map snd fs))"
  define tail where "tail = map Some (data_frames fs) @ rest"
  define b1 where "b1 = take n buffer @ p @ drop (n + length p) buffer"
  define d1 where "d1 = d\<lparr>rx := tail\<rparr>"
  have a: "length a = 4" using Cons.prems(3) f by simp
  have fit: "n + length p + m < TEMPLATE_SIZE" using Cons.prems(4) f by (simp add: m_def)
  have rx: "rx d = map Some (spec_encode a FINGERPRINT_DATAPACKET p) @ tail"
    using Cons.prems(2) f by (simp add: data_frames_def tail_def)
  have step: "readPacket d buffer n = Continue d1 b1 (n + length p) False"
    unfolding d1_def b1_def
    using readPacket_spec_encode [OF Cons.prems(1) rx a _ _ _ Cons.prems(5), of n] fit
    by simp
  have l1: "length b1 = TEMPLATE_SIZE"
    using fit Cons.prems(5) by (simp add: b1_def)
  have "loop_reaches (d1, b1, n + length p, False)
           (d1\<lparr>rx := rest\<rparr>,
            take (n + length p) b1 @ concat (map snd fs)
              @ drop (n + length p + length (concat (map snd fs))) b1,
            n + length p + length (concat (map snd fs)), False)"
  proof (rule Cons.IH)
    show "serial_set d1" using Cons.prems(1) by (simp add: d1_def)
    show "rx d1 = map Some (data_frames fs) @ rest" by (simp add: d1_def tail_def)
    show "\<forall>f\<in>set fs. length (fst f) = 4" using Cons.prems(3) by simp
    show "n + length p + length (concat (map snd fs)) < TEMPLATE_SIZE"
      using fit by (simp add: m_def)
    show "length b1 = TEMPLATE_SIZE" by (rule l1)
  qed
  moreover have "d1\<lparr>rx := rest\<rparr> = d\<lparr>rx := rest\<rparr>" by (simp add: d1_def)
  moreover have "take (n + length p) b1 = take n buffer @ p"
    using fit Cons.prems(5) by (simp add: b1_def)
  moreover have "drop (n + length p + m) b1 = drop (n + length p + m) buffer"
    using fit Cons.prems(5) by (simp add: b1_def add_ac)
  ultimately have rest: "loop_reaches (d1, b1, n + length p, False)
           (d\<lparr>rx := rest\<rparr>,
            (take n buffer @ p) @ concat (map snd fs) @ drop (n + length p + m) buffer,
            n + length p + m, False)"
    by (simp add: m_def)
  have "n < TEMPLATE_SIZE" using fit by simp
  then have "loop_reaches (d, buffer, n, False)
           (d\<lparr>rx := rest\<rparr>,
            (take n buffer @ p) @ concat (map snd fs) @ drop (n + length p + m) buffer,
            n + length p + m, False)"
    using step rest by (intro pass [of False n d buffer d1 b1 "n + length p" False]) simp_all
  then show ?case by (simp add: f m_def add.assoc)
qed

text \<open>
  A run of Data frames and one EndData frame with at most 512 payload bytes in all: the
  loop comes to the state with \<^verbatim>\<open>endReceived\<close> set and the payloads at the front of the buffer.
\<close>

lemma loop_reaches_frames:
  assumes ser: "serial_set d"
    and rx: "rx d = map Some (data_frames fs @ spec_encode a FINGERPRINT_ENDDATAPACKET p) @ rest"
    and addr: "\<forall>f\<in>set fs. length (fst f) = 4" "length a = 4"
    and room: "length (concat (map snd fs)) < TEMPLATE_SIZE"
      "length (concat (map snd fs)) + length p \<le> TEMPLATE_SIZE"
    and len: "length buffer = TEMPLATE_SIZE"
  shows "loop_reaches (d, buffer, 0, False)
           (d\<lparr>rx := rest\<rparr>,
            concat (map snd fs) @ p
              @ drop (length (concat (map snd fs)) + length p) buffer,
            length (concat (map snd fs)) + length p, True)"
proof -
  define m where "m = length (concat (map snd fs))"
  define tail where "tail = map Some (spec_encode a FINGERPRINT_ENDDATAPACKET p) @ rest"
  define bm where "bm = take 0 buffer @ concat (map snd fs) @ drop (0 + m) buffer"
  define bf where "bf = take m bm @ p @ drop (m + length p) bm"
  define dm where "dm = d\<lparr>rx := tail\<rparr>"
  have "loop_reaches (d, buffer, 0, False)
          (d\<lparr>rx := tail\<rparr>,
           take 0 buffer @ concat (map snd fs)
             @ drop (0 + length (concat (map snd fs))) buffer,
           0 + length (concat (map snd fs)), False)"
    using ser rx addr(1) room(1) len
    by (intro loop_reaches_data_frames) (simp_all add: tail_def)
  then have r1: "loop_reaches (d, buffer, 0, False) (dm, bm, m, False)"
    by (simp add: bm_def m_def dm_def)
  have lm: "length bm = TEMPLATE_SIZE"
    using room(1) len by (simp add: bm_def m_def)
  have "readPacket dm bm m
        = Continue (dm\<lparr>rx := rest\<rparr>) (take m bm @ p @ drop (m + length p) bm)
            (m + length p) (FINGERPRINT_ENDDATAPACKET = FINGERPRINT_ENDDATAPACKET)"
    using ser addr(2) room(2) lm
    by (intro readPacket_spec_encode [where addr = a]) (simp_all add: dm_def tail_def m_def)
  then have step: "readPacket dm bm m = Continue (d\<lparr>rx := rest\<rparr>) bf (m + length p) True"
    by (simp add: bf_def dm_def)
  have "loop_reaches (dm, bm, m, False) (d\<lparr>rx := rest\<rparr>, bf, m + length p, True)"
    using room(1) step
    by (intro pass [of False m dm bm "d\<lparr>rx := rest\<rparr>" bf "m + length p" True])
       (simp_all add: m_def here)
  with r1 have "loop_reaches (d, buffer, 0, False) (d\<lparr>rx := rest\<rparr>, bf, m + length p, True)"
    by (rule loop_reaches_trans)
  moreover have "bf = concat (map snd fs) @ p @ drop (m + length p) buffer"
    using room len by (simp add: bf_def bm_def m_def add_ac)
  ultimately show ?thesis by (simp add: m_def)
qed

text \<open>
  The download on a device that acknowledges the command and then sends the four frames of
  \<open>stream512\<close>: the buffer is filled with the 512 bytes 0xAA.
\<close>

lemma download_stream512:
  assumes ser: "serial_set d"
    and ack: "fst (ack d (ack_calls d)) = FINGERPRINT_OK"
      "snd (ack d (ack_calls d)) 0 = FINGERPRINT_OK"
    and len: "length buffer = TEMPLATE_SIZE"
  shows "readRawTemplate (d\<lparr>rx := stream512\<rparr>) buffer
         = (FINGERPRINT_OK,
            d\<lparr>rx := [], sent := sent d @ [(FINGERPRINT_COMMANDPACKET, [FINGERPRINT_UPLOAD, 0x01])],
              ack_calls := Suc (ack_calls d)\<rparr>,
            replicate 512 0xAA)"
proof -
  define A :: "u8 list" where "A = [0xFF, 0xFF, 0xFF, 0xFF]"
  define P :: "u8 list" where "P = replicate 128 0xAA"
  define fs where "fs = [(A, P), (A, P), (A, P)]"
  define d2 where "d2 = d\<lparr>rx := stream512,
     sent := sent d @ [(FINGERPRINT_COMMANDPACKET, [FINGERPRINT_UPLOAD, 0x01])],
     ack_calls := Suc (ack_calls d)\<rparr>"
  define bf where "bf = concat (map snd fs) @ P @ drop (length (concat (map snd fs)) + length P) buffer"
  have "loop_reaches (d2, buffer, 0, False)
          (d2\<lparr>rx := []\<rparr>,
           concat (map snd fs) @ P @ drop (length (concat (map snd fs)) + length P) buffer,
           length (concat (map snd fs)) + length P, True)"
    using ser len
    by (intro loop_reaches_frames [where a = A])
       (simp_all add: d2_def stream512_def fs_def A_def P_def)
  then have reach: "loop_reaches (d2, buffer, 0, False) (d2\<lparr>rx := []\<rparr>, bf, 512, True)"
    by (simp add: bf_def fs_def P_def)
  have "readPackets d2 buffer 0 False = readPackets (d2\<lparr>rx := []\<rparr>) bf 512 True"
    using loop_reaches_readPackets [OF reach] by simp
  also have "\<dots> = Continue (d2\<lparr>rx := []\<rparr>) bf 512 True"
    by (subst readPackets.simps) simp
  finally have loop: "readPackets d2 buffer 0 False = Continue (d2\<lparr>rx := []\<rparr>) bf 512 True" .
  have bf: "bf = replicate 512 0xAA"
    using len by (simp add: bf_def fs_def P_def replicate_add [symmetric])
  have "snd (getStructuredPacket (writeStructuredPacket FINGERPRINT_COMMANDPACKET
            [FINGERPRINT_UPLOAD, 0x01] (d\<lparr>rx := stream512\<rparr>))) = d2"
    by (simp add: d2_def getStructuredPacket_def writeStructuredPacket_def)
  with loop ack show ?thesis
    by (simp add: readRawTemplate_def getStructuredPacket_def writeStructuredPacket_def
        Let_def split_beta bf d2_def)
qed

text \<open>A download that returns \<^verbatim>\<open>FINGERPRINT_OK\<close> leaves a buffer of 512 bytes.\<close>

lemma readRawTemplate_OK_length:
  assumes len: "length buffer = TEMPLATE_SIZE"
    and ok: "readRawTemplate d0 buffer = (FINGERPRINT_OK, d', buffer')"
  shows "length buffer' = TEMPLATE_SIZE"
proof -
  define d1 where "d1 = snd (getStructuredPacket (writeStructuredPacket
     FINGERPRINT_COMMANDPACKET [FINGERPRINT_UPLOAD, 0x01] d0))"
  have tr: "tracks (rx d1) d1 buffer 0"
    using len by (simp add: tracks_def)
  from ok have run: "(case readPackets d1 buffer 0 False of
              Return r d3 b3 \<Rightarrow> (r, d3, b3)
            | Continue d3 b3 bytesRead endReceived \<Rightarrow>
                (FINGERPRINT_OK, d3,
                 if bytesRead < TEMPLATE_SIZE
                 then memset0 b3 bytesRead (TEMPLATE_SIZE - bytesRead)
                 else b3)) = (FINGERPRINT_OK, d', buffer')"
    by (auto simp: readRawTemplate_def d1_def Let_def split: prod.splits if_splits)
  from readPackets_final [OF tr, of False] obtain dk bk nk ek where
    t: "tracks (rx d1) dk bk nk"
    and fin: "case readPackets d1 buffer 0 False of
          Return r d' buffer' \<Rightarrow>
            \<not> ek \<and> nk < TEMPLATE_SIZE \<and> readPacket dk bk nk = Return r d' buffer'
        | Continue d' buffer' n' e' \<Rightarrow>
            (dk, bk, nk, ek) = (d', buffer', n', e') \<and> (e' \<or> n' = TEMPLATE_SIZE)"
    by blast
  from t have l: "length bk = TEMPLATE_SIZE" "nk \<le> TEMPLATE_SIZE" by (simp_all add: tracks_def)
  show ?thesis
  proof (cases "readPackets d1 buffer 0 False")
    case (Return r d3 b3)
    with run have "r = FINGERPRINT_OK" "b3 = buffer'" by simp_all
    with fin Return have "readPacket dk bk nk = Return FINGERPRINT_OK d3 buffer'" by simp
    from readPacket_Return_OK [OF this] l show ?thesis by (simp add: memset0_def)
  next
    case (Continue d3 b3 n3 e3)
    with fin have "b3 = bk" "n3 = nk" by simp_all
    with run Continue l show ?thesis by (auto simp: memset0_def split: if_splits)
  qed
qed

text \<open>
  C10. When \<^verbatim>\<open>_readRawTemplate\<close> returns \<^verbatim>\<open>FINGERPRINT_OK\<close>, the buffer has its 512
  bytes and the loop has come, after some
  number of complete passes, to the state in which it ends, with \<open>n\<close> bytes stored
  (\<^verbatim>\<open>bytesRead = n\<close>), and the 512 bytes of the buffer are these \<open>n\<close> bytes, which arrived on
  the serial stream in this order, followed by \<open>512 - n\<close> zeros. This holds of every state
  in which the loop ends, whether by a header timeout, by a full buffer or by an EndData
  frame that arrives before 512 bytes are stored. In particular, for a stream of Data
  frames and one EndData frame with at most 512 payload bytes in all, the buffer is the
  payloads of these frames, one after the other, followed by zeros.
\<close>

theorem download_ok_buffer:
  assumes len: "length buffer = TEMPLATE_SIZE"
    and ok: "readRawTemplate d0 buffer = (FINGERPRINT_OK, d', buffer')"
    and start: "d1 = snd (getStructuredPacket (writeStructuredPacket FINGERPRINT_COMMANDPACKET
                        [FINGERPRINT_UPLOAD, 0x01] d0))"
  shows "length buffer' = TEMPLATE_SIZE
       \<and> (\<exists>d b n e. loop_reaches (d1, buffer, 0, False) (d, b, n, e)
            \<and> loop_ends d b n e
            \<and> n \<le> TEMPLATE_SIZE
            \<and> subseq (map Some (take n b)) (rx d0)
            \<and> buffer' = take n b @ replicate (TEMPLATE_SIZE - n) 0)
       \<and> (\<forall>d b n e. loop_reaches (d1, buffer, 0, False) (d, b, n, e)
                   \<longrightarrow> loop_ends d b n e
                   \<longrightarrow> n \<le> TEMPLATE_SIZE
                       \<and> buffer' = take n b @ replicate (TEMPLATE_SIZE - n) 0)
       \<and> (\<forall>fs a p rest.
             serial_set d0
             \<longrightarrow> rx d0 = map Some (data_frames fs @ spec_encode a FINGERPRINT_ENDDATAPACKET p)
                         @ rest
             \<longrightarrow> (\<forall>f\<in>set fs. length (fst f) = 4) \<longrightarrow> length a = 4
             \<longrightarrow> length (concat (map snd fs)) < TEMPLATE_SIZE
             \<longrightarrow> length (concat (map snd fs)) + length p \<le> TEMPLATE_SIZE
             \<longrightarrow> buffer' = concat (map snd fs) @ p
                   @ replicate (TEMPLATE_SIZE - (length (concat (map snd fs)) + length p)) 0)"
proof -
  have rx1: "rx d1 = rx d0" and ser1: "serial_set d1 = serial_set d0"
    by (simp_all add: start getStructuredPacket_def writeStructuredPacket_def)
  have tr: "tracks (rx d0) d1 buffer 0"
    using len rx1 by (simp add: tracks_def)
  from ok have run: "(case readPackets d1 buffer 0 False of
              Return r d3 b3 \<Rightarrow> (r, d3, b3)
            | Continue d3 b3 bytesRead endReceived \<Rightarrow>
                (FINGERPRINT_OK, d3,
                 if bytesRead < TEMPLATE_SIZE
                 then memset0 b3 bytesRead (TEMPLATE_SIZE - bytesRead)
                 else b3)) = (FINGERPRINT_OK, d', buffer')"
    by (auto simp: readRawTemplate_def start Let_def split: prod.splits if_splits)
  have every: "n \<le> TEMPLATE_SIZE \<and> buffer' = take n b @ replicate (TEMPLATE_SIZE - n) 0"
    if reach: "loop_reaches (d1, buffer, 0, False) (d, b, n, e)" and ends: "loop_ends d b n e"
    for d b n e
  proof -
    from loop_reaches_tracks [OF reach, of "rx d0"] tr have "tracks (rx d0) d b n" by simp
    then have l: "length b = TEMPLATE_SIZE" "n \<le> TEMPLATE_SIZE" by (simp_all add: tracks_def)
    have same: "readPackets d1 buffer 0 False = readPackets d b n e"
      using loop_reaches_readPackets [OF reach] by simp
    have "buffer' = take n b @ replicate (TEMPLATE_SIZE - n) 0"
    proof (cases "\<not> e \<and> n < TEMPLATE_SIZE")
      case False
      then have "readPackets d b n e = Continue d b n e"
        by (subst readPackets.simps) auto
      with run same have "buffer' = (if n < TEMPLATE_SIZE
          then memset0 b n (TEMPLATE_SIZE - n) else b)" by auto
      with l show ?thesis by (auto simp: memset0_tail)
    next
      case True
      with ends obtain r dr br where ret: "readPacket d b n = Return r dr br"
        by (auto simp: loop_ends_def split: step.splits)
      with True have "readPackets d b n e = Return r dr br"
        by (subst readPackets.simps) simp
      with run same have "r = FINGERPRINT_OK" "br = buffer'" by simp_all
      with ret have "readPacket d b n = Return FINGERPRINT_OK dr buffer'" by simp
      from readPacket_Return_OK [OF this] l show ?thesis by (simp add: memset0_tail)
    qed
    with l(2) show ?thesis ..
  qed
  from readPackets_final [OF tr, of False] obtain dk bk nk ek where
    reach: "loop_reaches (d1, buffer, 0, False) (dk, bk, nk, ek)" and t: "tracks (rx d0) dk bk nk"
    and fin: "case readPackets d1 buffer 0 False of
          Return r d' buffer' \<Rightarrow>
            \<not> ek \<and> nk < TEMPLATE_SIZE \<and> readPacket dk bk nk = Return r d' buffer'
        | Continue d' buffer' n' e' \<Rightarrow>
            (dk, bk, nk, ek) = (d', buffer', n', e') \<and> (e' \<or> n' = TEMPLATE_SIZE)"
    by blast
  have ends: "loop_ends dk bk nk ek"
    using fin by (cases "readPackets d1 buffer 0 False") (auto simp: loop_ends_def)
  from tracks_payload [OF t] have "subseq (map Some (take nk bk)) (rx d0)" by simp
  with reach ends every [OF reach ends]
  have first: "\<exists>d b n e. loop_reaches (d1, buffer, 0, False) (d, b, n, e)
            \<and> loop_ends d b n e
            \<and> n \<le> TEMPLATE_SIZE
            \<and> subseq (map Some (take n b)) (rx d0)
            \<and> buffer' = take n b @ replicate (TEMPLATE_SIZE - n) 0"
    by blast
  have frames: "buffer' = concat (map snd fs) @ p
                   @ replicate (TEMPLATE_SIZE - (length (concat (map snd fs)) + length p)) 0"
    if ser: "serial_set d0"
      and rx: "rx d0 = map Some (data_frames fs @ spec_encode a FINGERPRINT_ENDDATAPACKET p)
                       @ rest"
      and addr: "\<forall>f\<in>set fs. length (fst f) = 4" "length a = 4"
      and room: "length (concat (map snd fs)) < TEMPLATE_SIZE"
        "length (concat (map snd fs)) + length p \<le> TEMPLATE_SIZE"
    for fs a p rest
  proof -
    define m where "m = length (concat (map snd fs)) + length p"
    define bf where "bf = concat (map snd fs) @ p @ drop m buffer"
    have "loop_reaches (d1, buffer, 0, False)
            (d1\<lparr>rx := rest\<rparr>,
             concat (map snd fs) @ p
               @ drop (length (concat (map snd fs)) + length p) buffer,
             length (concat (map snd fs)) + length p, True)"
      using ser rx addr room len
      by (intro loop_reaches_frames [where a = a]) (simp_all add: ser1 rx1)
    then have r2: "loop_reaches (d1, buffer, 0, False) (d1\<lparr>rx := rest\<rparr>, bf, m, True)"
      by (simp add: bf_def m_def)
    have "loop_ends (d1\<lparr>rx := rest\<rparr>) bf m True" by (simp add: loop_ends_def)
    from every [OF r2 this]
    have "buffer' = take m bf @ replicate (TEMPLATE_SIZE - m) 0"
      by simp
    moreover have "take m bf = concat (map snd fs) @ p"
      by (simp add: bf_def m_def)
    ultimately show ?thesis by (simp add: m_def)
  qed
  from t every [OF reach ends] have "length buffer' = TEMPLATE_SIZE"
    by (simp add: tracks_def)
  with first every frames show ?thesis by blast
qed

text \<open>
  The theorem at a stream of one EndData frame with the three bytes 1, 2, 3, where the
  loop ends on that frame with 3 bytes stored and the buffer is these bytes and 509 zeros,
  and at the stream of four frames with 128 bytes 0xAA each, where the loop ends with the
  buffer full of these 512 bytes.
\<close>

theorem download_ok_buffer_witness:
  "readRawTemplate (quiet_device\<lparr>rx := stream_end3\<rparr>) (replicate 512 0x55)
     = (FINGERPRINT_OK,
        quiet_device\<lparr>ack_calls := 1, sent := [(FINGERPRINT_COMMANDPACKET, [FINGERPRINT_UPLOAD, 0x01])]\<rparr>,
        [1, 2, 3] @ replicate 509 0)
   \<and> loop_reaches
         (quiet_device\<lparr>rx := stream_end3, ack_calls := 1,
            sent := [(FINGERPRINT_COMMANDPACKET, [FINGERPRINT_UPLOAD, 0x01])]\<rparr>,
          replicate 512 0x55, 0, False)
         (quiet_device\<lparr>ack_calls := 1,
            sent := [(FINGERPRINT_COMMANDPACKET, [FINGERPRINT_UPLOAD, 0x01])]\<rparr>,
          [1, 2, 3] @ replicate 509 0x55, 3, True)
   \<and> loop_ends
         (quiet_device\<lparr>ack_calls := 1,
            sent := [(FINGERPRINT_COMMANDPACKET, [FINGERPRINT_UPLOAD, 0x01])]\<rparr>)
         ([1, 2, 3] @ replicate 509 0x55) 3 True
   \<and> readRawTemplate (quiet_device\<lparr>rx := stream512\<rparr>) (replicate 512 0x55)
     = (FINGERPRINT_OK,
        quiet_device\<lparr>ack_calls := 1, sent := [(FINGERPRINT_COMMANDPACKET, [FINGERPRINT_UPLOAD, 0x01])]\<rparr>,
        replicate 512 0xAA)"
proof -
  define A :: "u8 list" where "A = [0xFF, 0xFF, 0xFF, 0xFF]"
  define P :: "u8 list" where "P = [1, 2, 3]"
  define b0 :: "u8 list" where "b0 = replicate 512 0x55"
  define d0 where "d0 = quiet_device\<lparr>rx := stream_end3\<rparr>"
  define d1 where "d1 = quiet_device\<lparr>rx := stream_end3, ack_calls := 1,
     sent := [(FINGERPRINT_COMMANDPACKET, [FINGERPRINT_UPLOAD, 0x01])]\<rparr>"
  have s: "serial_set d1" "rx d1 = map Some (spec_encode A 8 P) @ []"
    by (simp_all add: d1_def quiet_device_def stream_end3_def A_def P_def)
  have lens: "length A = 4" "length P = 3" "length b0 = 512"
    by (simp_all add: A_def P_def b0_def)
  have p1: "readPacket d1 b0 0 = Continue (d1\<lparr>rx := []\<rparr>) (P @ drop 3 b0) 3 True"
    using readPacket_spec_encode [of d1 A 8 P "[]" 0 b0] s lens by simp
  have loop: "readPackets d1 b0 0 False = Continue (d1\<lparr>rx := []\<rparr>) (P @ drop 3 b0) 3 True"
    by (subst readPackets.simps, simp add: p1, subst readPackets.simps, simp)
  have run: "readRawTemplate d0 b0 = (FINGERPRINT_OK, d1\<lparr>rx := []\<rparr>, P @ replicate 509 0)"
    using loop
    by (simp add: readRawTemplate_def d0_def d1_def quiet_device_def getStructuredPacket_def
        writeStructuredPacket_def Let_def memset0_def P_def b0_def)
  have reach: "loop_reaches (d1, b0, 0, False) (d1\<lparr>rx := []\<rparr>, P @ drop 3 b0, 3, True)"
    by (rule pass [OF _ _ p1] here | simp)+
  have ends: "loop_ends (d1\<lparr>rx := []\<rparr>) (P @ drop 3 b0) 3 True"
    by (simp add: loop_ends_def)
  have d1: "d1 = snd (getStructuredPacket (writeStructuredPacket FINGERPRINT_COMMANDPACKET
                        [FINGERPRINT_UPLOAD, 0x01] d0))"
    by (simp add: d0_def d1_def quiet_device_def getStructuredPacket_def
        writeStructuredPacket_def)
  note inst = download_ok_buffer [OF lens(3) run d1]
  from inst reach ends
  have "P @ replicate 509 0 = take 3 (P @ drop 3 b0) @ replicate (TEMPLATE_SIZE - 3) 0"
    by blast
  then have one: "readRawTemplate d0 b0 = (FINGERPRINT_OK, d1\<lparr>rx := []\<rparr>,
      take 3 (P @ drop 3 b0) @ replicate (TEMPLATE_SIZE - 3) 0)"
    using run by simp
  define e0 where "e0 = quiet_device\<lparr>rx := stream512\<rparr>"
  define e1 where "e1 = quiet_device\<lparr>ack_calls := 1,
     sent := [(FINGERPRINT_COMMANDPACKET, [FINGERPRINT_UPLOAD, 0x01])]\<rparr>"
  from download_stream512 [of quiet_device b0]
  have run2: "readRawTemplate e0 b0 = (FINGERPRINT_OK, e1, replicate 512 0xAA)"
    by (simp add: e0_def e1_def quiet_device_def b0_def)
  define fs :: "(u8 list \<times> u8 list) list" where
    "fs = [(A, replicate 128 0xAA), (A, replicate 128 0xAA), (A, replicate 128 0xAA)]"
  have "replicate 512 (0xAA :: u8) = concat (map snd fs) @ replicate 128 0xAA
          @ replicate (TEMPLATE_SIZE - (length (concat (map snd fs)) + length (replicate 128 (0xAA :: u8)))) 0"
    using download_ok_buffer [OF lens(3) run2 refl, THEN conjunct2, THEN conjunct2,
        THEN conjunct2, THEN spec [where x = fs], THEN spec [where x = A],
        THEN spec [where x = "replicate 128 0xAA"], THEN spec [where x = "[]"]]
    by (simp add: e0_def quiet_device_def stream512_def data_frames_def fs_def A_def)
  with one run2 reach ends show ?thesis
    by (simp add: d0_def d1_def e0_def e1_def b0_def P_def quiet_device_def)
qed

section \<open>Properties of the template upload\<close>

subsection \<open>The bytes of one frame\<close>

lemma hi_byte: "(ucast ((drop_bit 8 (of_nat L :: u16)) AND 0xFF) :: u8) = of_nat (L div 256)"
proof -
  have d: "L div 256 = drop_bit 8 L" by (simp add: drop_bit_eq_div)
  have f: "(0xFF :: u16) = mask 8" by (simp add: mask_eq_exp_minus_1)
  show ?thesis
    unfolding d f
    by (rule bit_word_eqI) (auto simp: bit_simps)
qed

lemma lo_byte: "(ucast ((of_nat L :: u16) AND 0xFF) :: u8) = of_nat (L mod 256)"
proof -
  have m: "L mod 256 = take_bit 8 L" by (simp add: take_bit_eq_mod)
  have f: "(0xFF :: u16) = mask 8" by (simp add: mask_eq_exp_minus_1)
  show ?thesis
    unfolding m f
    by (rule bit_word_eqI) (auto simp: bit_simps)
qed

lemma be16_word: "[ucast ((drop_bit 8 (of_nat L :: u16)) AND 0xFF), ucast ((of_nat L :: u16) AND 0xFF)] = be16 L"
  by (simp add: be16_def hi_byte lo_byte)

lemma be16_mod: "be16 (S mod 2 ^ 16) = be16 S"
proof -
  have "(of_nat (S mod 2 ^ 16) :: u16) = of_nat S"
    by (simp add: word_of_nat_eq_iff take_bit_eq_mod)
  then show ?thesis
    using be16_word [of "S mod 2 ^ 16"] be16_word [of S] by simp
qed

lemma addBytes_of_nat: "addBytes s bs = s + of_nat (sum_list (map unat bs))"
  unfolding addBytes_def
  by (induction bs arbitrary: s) (simp_all add: add.assoc)

lemma writePacket_bytes:
  "writePacket ty len dat csum d =
     d\<lparr>flushed := flushed d @
          [pending d @ [0xEF, 0x01] @ [0xFF, 0xFF, 0xFF, 0xFF] @ [ty]
           @ [ucast ((drop_bit 8 len) AND 0xFF), ucast (len AND 0xFF)] @ dat
           @ [ucast ((drop_bit 8 csum) AND 0xFF), ucast (csum AND 0xFF)]],
       pending := []\<rparr>"
  by (simp add: writePacket_def serial_write_def serial_flush_def Let_def)

lemma sendChunk_spec:
  "sendChunk ty payload d =
     d\<lparr>flushed := flushed d @ [pending d @ spec_encode [0xFF, 0xFF, 0xFF, 0xFF] ty payload],
       pending := []\<rparr>"
proof -
  define S where "S = unat ty + (length payload + 2) + sum_list (map unat payload)"
  define L where "L = length payload + 2"
  have len: "(of_nat (length payload) + 2 :: u16) = of_nat L" by (simp add: L_def)
  have sum: "addBytes (ucast ty + of_nat L) payload = (of_nat S :: u16)"
    unfolding len [symmetric] S_def by (simp add: addBytes_of_nat)
  have "be16 (spec_checksum ty payload) = be16 S"
    unfolding spec_checksum_def S_def by (rule be16_mod)
  then have "spec_encode [0xFF, 0xFF, 0xFF, 0xFF] ty payload
     = [0xEF, 0x01] @ [0xFF, 0xFF, 0xFF, 0xFF] @ [ty] @ be16 L @ payload @ be16 S"
    by (simp add: spec_encode_def L_def)
  then show ?thesis
    unfolding sendChunk_def Let_def len sum writePacket_bytes
    by (simp only: be16_word)
qed

lemma command_spec:
  "writePacket 0x01 (of_nat (length [0x09, bufferID]) + 2)
      [0x09, bufferID] (addBytes (0x01 + (of_nat (length [0x09, bufferID]) + 2)) [0x09, bufferID]) d
   = d\<lparr>flushed := flushed d @
          [pending d @ spec_encode [0xFF, 0xFF, 0xFF, 0xFF] FINGERPRINT_COMMANDPACKET [0x09, bufferID]],
       pending := []\<rparr>"
proof -
  have "sendChunk 0x01 [0x09, bufferID] d
     = writePacket 0x01 (of_nat (length [0x09, bufferID]) + 2)
      [0x09, bufferID] (addBytes (0x01 + (of_nat (length [0x09, bufferID]) + 2)) [0x09, bufferID]) d"
    by (simp add: sendChunk_def Let_def)
  then show ?thesis using sendChunk_spec [where ty = 1 and payload = "[0x09, bufferID]" and d = d] by simp
qed

lemma sendPackets_unroll:
  "sendPackets T 0 d =
     sendChunk FINGERPRINT_ENDDATAPACKET (take 128 (drop 384 T))
       (sendChunk FINGERPRINT_DATAPACKET (take 128 (drop 256 T))
         (sendChunk FINGERPRINT_DATAPACKET (take 128 (drop 128 T))
           (sendChunk FINGERPRINT_DATAPACKET (take 128 T) d)))"
proof -
  have 4: "sendPackets T 512 d' = d'" for d'
    by (subst sendPackets.simps) simp
  have 3: "sendPackets T 384 d' = sendChunk FINGERPRINT_ENDDATAPACKET (take 128 (drop 384 T)) d'" for d'
    by (subst sendPackets.simps) (simp add: Let_def 4)
  have 2: "sendPackets T 256 d' = sendPackets T 384 (sendChunk FINGERPRINT_DATAPACKET (take 128 (drop 256 T)) d')" for d'
    by (subst sendPackets.simps) (simp add: Let_def)
  have 1: "sendPackets T 128 d' = sendPackets T 256 (sendChunk FINGERPRINT_DATAPACKET (take 128 (drop 128 T)) d')" for d'
    by (subst sendPackets.simps) (simp add: Let_def)
  have 0: "sendPackets T 0 d' = sendPackets T 128 (sendChunk FINGERPRINT_DATAPACKET (take 128 T) d')" for d'
    by (subst sendPackets.simps) (simp add: Let_def)
  show ?thesis by (simp add: 0 1 2 3)
qed

lemma upload_flushed:
  assumes "serial_set d"
  shows "uploadTemplateToBuffer T bufferID d =
     (let A = [0xFF, 0xFF, 0xFF, 0xFF];
          cmd = pending d @ spec_encode A FINGERPRINT_COMMANDPACKET [0x09, bufferID];
          (result, ackData) = ack d (ack_calls d);
          d2 = d\<lparr>flushed := flushed d @ [cmd], pending := [], ack_calls := Suc (ack_calls d)\<rparr>
      in if result \<noteq> FINGERPRINT_OK \<or> ackData 0 \<noteq> FINGERPRINT_OK then (ackData 0, d2)
         else (FINGERPRINT_OK,
               d2\<lparr>flushed := flushed d @
                     [cmd,
                      spec_encode A FINGERPRINT_DATAPACKET (take 128 T),
                      spec_encode A FINGERPRINT_DATAPACKET (take 128 (drop 128 T)),
                      spec_encode A FINGERPRINT_DATAPACKET (take 128 (drop 256 T)),
                      spec_encode A FINGERPRINT_ENDDATAPACKET (take 128 (drop 384 T))]\<rparr>))"
  using assms
  by (simp add: uploadTemplateToBuffer_def command_spec [simplified] getStructuredPacket_def Let_def
      sendPackets_unroll sendChunk_spec split: prod.splits)


lemma frame_type_spec: "length A = 4 \<Longrightarrow> frame_type (spec_encode A ty P) = ty"
  by (simp add: frame_type_def spec_encode_def nth_append)

lemma frame_payload_spec: "length A = 4 \<Longrightarrow> frame_payload (spec_encode A ty P) = P"
  by (simp add: frame_payload_def spec_encode_def be16_def)

lemma four_chunks:
  assumes "length T = TEMPLATE_SIZE"
  shows "take 128 T @ take 128 (drop 128 T) @ take 128 (drop 256 T) @ take 128 (drop 384 T) = T"
proof -
  have "take 256 T = take 128 T @ take 128 (drop 128 T)"
    using take_add [of 128 128 T] by simp
  moreover have "take 384 T = take 256 T @ take 128 (drop 256 T)"
    using take_add [of 256 128 T] by simp
  moreover have "take 512 T = take 384 T @ take 128 (drop 384 T)"
    using take_add [of 384 128 T] by simp
  moreover have "take 512 T = T" using assms by simp
  ultimately show ?thesis by simp
qed

text \<open>
  C3. With the serial stream attached, a template of 512 bytes and a command that the
  sensor acknowledges with success, \<^verbatim>\<open>uploadTemplateToBuffer\<close> returns \<^verbatim>\<open>FINGERPRINT_OK\<close> and
  flushes five frames: the command and then exactly four data frames, the first three of
  type Data and the last of type EndData, whose payloads have 512 bytes together and are
  the template, in order.
\<close>

theorem upload_four_frames:
  assumes ser: "serial_set d"
    and len: "length T = TEMPLATE_SIZE"
    and ack: "ack d (ack_calls d) = (FINGERPRINT_OK, ackData)" "ackData 0 = FINGERPRINT_OK"
    and res: "uploadTemplateToBuffer T bufferID d = (result, d')"
    and frames: "frames = drop (Suc (length (flushed d))) (flushed d')"
  shows "result = FINGERPRINT_OK
       \<and> length (flushed d') = length (flushed d) + 5
       \<and> length frames = 4
       \<and> map frame_type frames
           = [FINGERPRINT_DATAPACKET, FINGERPRINT_DATAPACKET, FINGERPRINT_DATAPACKET,
              FINGERPRINT_ENDDATAPACKET]
       \<and> sum_list (map (\<lambda>f. length (frame_payload f)) frames) = TEMPLATE_SIZE
       \<and> concat (map frame_payload frames) = T"
proof -
  define A :: "u8 list" where "A = [0xFF, 0xFF, 0xFF, 0xFF]"
  define cmd where "cmd = pending d @ spec_encode A FINGERPRINT_COMMANDPACKET [0x09, bufferID]"
  define fs where "fs = [spec_encode A FINGERPRINT_DATAPACKET (take 128 T),
                      spec_encode A FINGERPRINT_DATAPACKET (take 128 (drop 128 T)),
                      spec_encode A FINGERPRINT_DATAPACKET (take 128 (drop 256 T)),
                      spec_encode A FINGERPRINT_ENDDATAPACKET (take 128 (drop 384 T))]"
  have A: "length A = 4" by (simp add: A_def)
  from res ack have r: "result = FINGERPRINT_OK" and fl: "flushed d' = flushed d @ cmd # fs"
    by (auto simp: upload_flushed [OF ser] Let_def A_def cmd_def fs_def)
  from fl frames have f: "frames = fs" by simp
  have ty: "map frame_type fs = [2, 2, 2, 8]"
    by (simp add: fs_def frame_type_spec [OF A])
  have pl: "map frame_payload fs
      = [take 128 T, take 128 (drop 128 T), take 128 (drop 256 T), take 128 (drop 384 T)]"
    by (simp add: fs_def frame_payload_spec [OF A])
  have cc: "concat (map frame_payload fs) = T"
    using four_chunks [OF len] by (simp add: pl)
  have "sum_list (map (\<lambda>f. length (frame_payload f)) fs) = length (concat (map frame_payload fs))"
    by (simp add: length_concat comp_def)
  with cc len have sm: "sum_list (map (\<lambda>f. length (frame_payload f)) fs) = TEMPLATE_SIZE"
    by simp
  show ?thesis
    using r fl ty cc sm unfolding f by (simp add: fs_def)
qed

text \<open>
  The theorem at a template of 512 bytes 0xAA and the quiet device, which acknowledges
  the command.
\<close>

theorem upload_four_frames_witness:
  "fst (uploadTemplateToBuffer (replicate 512 0xAA) 2 quiet_device) = FINGERPRINT_OK
   \<and> map frame_type (drop 1 (flushed (snd (uploadTemplateToBuffer (replicate 512 0xAA) 2 quiet_device))))
      = [FINGERPRINT_DATAPACKET, FINGERPRINT_DATAPACKET, FINGERPRINT_DATAPACKET,
         FINGERPRINT_ENDDATAPACKET]
   \<and> concat (map frame_payload
         (drop 1 (flushed (snd (uploadTemplateToBuffer (replicate 512 0xAA) 2 quiet_device)))))
      = replicate 512 0xAA"
proof -
  obtain result d' where res: "uploadTemplateToBuffer (replicate 512 0xAA) 2 quiet_device = (result, d')"
    by (cases "uploadTemplateToBuffer (replicate 512 0xAA) 2 quiet_device")
  have "serial_set quiet_device" "length (replicate 512 (0xAA :: u8)) = TEMPLATE_SIZE"
    "ack quiet_device (ack_calls quiet_device) = (FINGERPRINT_OK, \<lambda>i. 0)"
    "flushed quiet_device = []"
    by (simp_all add: quiet_device_def)
  from upload_four_frames [OF this(1-3) _ res refl] this(4) res show ?thesis by simp
qed

text \<open>
  C6. Every frame that \<^verbatim>\<open>uploadTemplateToBuffer\<close> writes, the command frame and (after a
  successful acknowledgment) the four data frames, is the frame of the specification for
  its type and payload: the length field is the payload length plus 2 and the trailer is
  the sum of type, length and payload bytes modulo \<open>2^16\<close>, both big-endian.
\<close>

theorem upload_frames_follow_spec:
  assumes ser: "serial_set d"
    and pend: "pending d = []"
    and res: "uploadTemplateToBuffer T bufferID d = (result, d')"
  shows "flushed d' =
     flushed d
     @ spec_encode [0xFF, 0xFF, 0xFF, 0xFF] FINGERPRINT_COMMANDPACKET [0x09, bufferID]
     # (if fst (ack d (ack_calls d)) = FINGERPRINT_OK
           \<and> snd (ack d (ack_calls d)) 0 = FINGERPRINT_OK
        then [spec_encode [0xFF, 0xFF, 0xFF, 0xFF] FINGERPRINT_DATAPACKET (take 128 T),
              spec_encode [0xFF, 0xFF, 0xFF, 0xFF] FINGERPRINT_DATAPACKET (take 128 (drop 128 T)),
              spec_encode [0xFF, 0xFF, 0xFF, 0xFF] FINGERPRINT_DATAPACKET (take 128 (drop 256 T)),
              spec_encode [0xFF, 0xFF, 0xFF, 0xFF] FINGERPRINT_ENDDATAPACKET (take 128 (drop 384 T))]
        else [])"
  using res pend
  by (auto simp: upload_flushed [OF ser] Let_def split: prod.splits if_splits)

text \<open>
  The theorem at the same upload: the first frame flushed is the command frame for slot 2,
  with the length 4 and the checksum 0x0010, and five frames are flushed in all.
\<close>

theorem upload_frames_follow_spec_witness:
  "hd (flushed (snd (uploadTemplateToBuffer (replicate 512 0xAA) 2 quiet_device)))
     = [0xEF, 0x01, 0xFF, 0xFF, 0xFF, 0xFF, 0x01, 0x00, 0x04, 0x09, 0x02, 0x00, 0x10]
   \<and> length (flushed (snd (uploadTemplateToBuffer (replicate 512 0xAA) 2 quiet_device))) = 5"
proof -
  obtain result d' where res: "uploadTemplateToBuffer (replicate 512 0xAA) 2 quiet_device = (result, d')"
    by (cases "uploadTemplateToBuffer (replicate 512 0xAA) 2 quiet_device")
  have "serial_set quiet_device" "pending quiet_device = []"
    by (simp_all add: quiet_device_def)
  from upload_frames_follow_spec [OF this res] res show ?thesis
    by (simp add: quiet_device_def spec_encode_def spec_checksum_def be16_def)
qed

section \<open>Decoding and encoding again\<close>

text \<open>
  C5, as stated, fails: the decoder of \<^verbatim>\<open>_readRawTemplate\<close> drops the address of the frame
  and the encoder of \<^verbatim>\<open>uploadTemplateToBuffer\<close> always writes the address 0xFFFFFFFF. The
  valid frame with address 0 is decoded to its payload byte, and encoding that byte again
  as a Data frame gives other bytes.
\<close>

theorem frame_roundtrip_counterexample:
  "readPacket (quiet_device\<lparr>rx := map Some frame_addr0\<rparr>) (replicate 512 0) 0
     = Continue quiet_device (0x11 # replicate 511 0) 1 False
   \<and> flushed (sendChunk FINGERPRINT_DATAPACKET (take 1 (0x11 # replicate 511 0)) quiet_device)
     \<noteq> [frame_addr0]"
proof -
  have "readPacket (quiet_device\<lparr>rx := map Some frame_addr0\<rparr>) (replicate 512 0) 0
     = Continue (quiet_device\<lparr>rx := map Some frame_addr0, rx := []\<rparr>)
         (take 0 (replicate 512 0) @ [0x11] @ drop (0 + length [0x11 :: u8]) (replicate 512 0))
         (0 + length [0x11 :: u8]) (FINGERPRINT_DATAPACKET = FINGERPRINT_ENDDATAPACKET)"
    by (rule readPacket_spec_encode [where addr = "[0x00, 0x00, 0x00, 0x00]"])
       (simp_all add: quiet_device_def frame_addr0_def)
  then have one: "readPacket (quiet_device\<lparr>rx := map Some frame_addr0\<rparr>) (replicate 512 0) 0
     = Continue quiet_device (0x11 # replicate 511 0) 1 False"
    by (simp add: quiet_device_def)
  have two: "flushed (sendChunk FINGERPRINT_DATAPACKET (take 1 (0x11 # replicate 511 0)) quiet_device)
     \<noteq> [frame_addr0]"
    by (simp add: sendChunk_spec quiet_device_def frame_addr0_def spec_encode_def)
  from one two show ?thesis ..
qed

text \<open>
  C5, amended. For a valid stream that is one Data or EndData frame with the address
  0xFFFFFFFF and a payload that fits into what is left of the 512-byte buffer, one pass of
  the download loop stores the payload, and encoding what it stored, with the type that
  \<^verbatim>\<open>endReceived\<close> tells, writes the bytes of the stream again.
\<close>

theorem frame_roundtrip:
  assumes valid: "s = spec_encode [0xFF, 0xFF, 0xFF, 0xFF] ty payload"
    and ty: "ty = FINGERPRINT_DATAPACKET \<or> ty = FINGERPRINT_ENDDATAPACKET"
    and fit: "n + length payload \<le> TEMPLATE_SIZE"
    and ser: "serial_set d" and rx: "rx d = map Some s @ rest"
    and buf: "length buffer = TEMPLATE_SIZE"
    and out: "pending out = []"
  shows "\<exists>d' buffer' n' e.
           readPacket d buffer n = Continue d' buffer' n' e
         \<and> rx d' = rest
         \<and> flushed (sendChunk (if e then FINGERPRINT_ENDDATAPACKET else FINGERPRINT_DATAPACKET)
                      (take (n' - n) (drop n buffer')) out)
           = flushed out @ [s]"
proof -
  define buffer' where "buffer' = take n buffer @ payload @ drop (n + length payload) buffer"
  have dec: "readPacket d buffer n
         = Continue (d\<lparr>rx := rest\<rparr>) buffer' (n + length payload) (ty = FINGERPRINT_ENDDATAPACKET)"
    unfolding buffer'_def
    using ser rx [unfolded valid] _ ty _ fit buf
    by (rule readPacket_spec_encode) (use fit in simp_all)
  have pl: "take (n + length payload - n) (drop n buffer') = payload"
    using fit buf by (simp add: buffer'_def)
  have tyb: "(if ty = FINGERPRINT_ENDDATAPACKET then FINGERPRINT_ENDDATAPACKET
              else FINGERPRINT_DATAPACKET) = ty"
    using ty by auto
  have enc: "flushed (sendChunk (if ty = FINGERPRINT_ENDDATAPACKET then FINGERPRINT_ENDDATAPACKET
                                 else FINGERPRINT_DATAPACKET)
                      (take (n + length payload - n) (drop n buffer')) out)
           = flushed out @ [s]"
    unfolding pl tyb by (simp add: sendChunk_spec out valid)
  have "rx (d\<lparr>rx := rest\<rparr>) = rest" by simp
  with dec enc show ?thesis by blast
qed

text \<open>
  The theorem at the EndData frame with the payload 1, 2, 3.
\<close>

theorem frame_roundtrip_witness:
  "\<exists>d' buffer' n' e.
      readPacket (quiet_device\<lparr>rx := stream_end3\<rparr>) (replicate 512 0x55) 0
        = Continue d' buffer' n' e
    \<and> rx d' = []
    \<and> map Some (concat (flushed (sendChunk
          (if e then FINGERPRINT_ENDDATAPACKET else FINGERPRINT_DATAPACKET)
          (take (n' - 0) (drop 0 buffer')) quiet_device)))
      = stream_end3"
proof -
  have "\<exists>d' buffer' n' e.
      readPacket (quiet_device\<lparr>rx := stream_end3\<rparr>) (replicate 512 0x55) 0
        = Continue d' buffer' n' e
    \<and> rx d' = []
    \<and> flushed (sendChunk (if e then FINGERPRINT_ENDDATAPACKET else FINGERPRINT_DATAPACKET)
          (take (n' - 0) (drop 0 buffer')) quiet_device)
      = flushed quiet_device
        @ [spec_encode [0xFF, 0xFF, 0xFF, 0xFF] FINGERPRINT_ENDDATAPACKET [1, 2, 3]]"
    by (rule frame_roundtrip [where rest = "[]" and ty = FINGERPRINT_ENDDATAPACKET
          and payload = "[1, 2, 3]"])
       (simp_all add: quiet_device_def stream_end3_def)
  then obtain d' buffer' n' e where
    "readPacket (quiet_device\<lparr>rx := stream_end3\<rparr>) (replicate 512 0x55) 0
        = Continue d' buffer' n' e"
    "rx d' = []"
    "flushed (sendChunk (if e then FINGERPRINT_ENDDATAPACKET else FINGERPRINT_DATAPACKET)
          (take (n' - 0) (drop 0 buffer')) quiet_device)
      = flushed quiet_device
        @ [spec_encode [0xFF, 0xFF, 0xFF, 0xFF] FINGERPRINT_ENDDATAPACKET [1, 2, 3]]"
    by blast
  moreover from this(3) have
    "map Some (concat (flushed (sendChunk
          (if e then FINGERPRINT_ENDDATAPACKET else FINGERPRINT_DATAPACKET)
          (take (n' - 0) (drop 0 buffer')) quiet_device)))
      = stream_end3"
    by (simp add: quiet_device_def stream_end3_def)
  ultimately show ?thesis by blast
qed

section \<open>Properties of the waits for the finger\<close>

lemma waitNoFinger_first:
  "(\<forall>i<k. image d (image_calls d + i) \<noteq> FINGERPRINT_NOFINGER) \<Longrightarrow>
   image d (image_calls d + k) = FINGERPRINT_NOFINGER \<Longrightarrow>
   waitNoFinger d = Some (d\<lparr>image_calls := image_calls d + Suc k\<rparr>)"
proof (induction k arbitrary: d)
  case 0
  then show ?case
    by (subst waitNoFinger.simps) (simp add: getImage_def)
next
  case (Suc k)
  define d1 where "d1 = d\<lparr>image_calls := Suc (image_calls d)\<rparr>"
  from Suc.prems(1) have now: "image d (image_calls d) \<noteq> FINGERPRINT_NOFINGER" by force
  have "\<forall>i<k. image d1 (image_calls d1 + i) \<noteq> FINGERPRINT_NOFINGER"
  proof (intro allI impI)
    fix i assume "i < k"
    then have "Suc i < Suc k" by simp
    with Suc.prems(1) have "image d (image_calls d + Suc i) \<noteq> FINGERPRINT_NOFINGER" by blast
    then show "image d1 (image_calls d1 + i) \<noteq> FINGERPRINT_NOFINGER" by (simp add: d1_def)
  qed
  moreover have "image d1 (image_calls d1 + k) = FINGERPRINT_NOFINGER"
    using Suc.prems(2) by (simp add: d1_def)
  ultimately have "waitNoFinger d1 = Some (d1\<lparr>image_calls := image_calls d1 + Suc k\<rparr>)"
    by (rule Suc.IH)
  moreover have "waitNoFinger d = waitNoFinger d1"
    using now by (subst waitNoFinger.simps) (simp add: getImage_def d1_def)
  ultimately show ?case by (simp add: d1_def)
qed

lemma awaitFinger100_first:
  "unat t + j \<le> 101 \<Longrightarrow>
   (\<forall>i<j. image d (image_calls d + i) \<noteq> FINGERPRINT_OK) \<Longrightarrow>
   image d (image_calls d + j) = FINGERPRINT_OK \<Longrightarrow>
   awaitFinger100 t d = (True, d\<lparr>image_calls := image_calls d + Suc j\<rparr>)"
proof (induction j arbitrary: d t)
  case 0
  then show ?case
    by (subst awaitFinger100.simps) (simp add: getImage_def)
next
  case (Suc j)
  define d1 where "d1 = d\<lparr>image_calls := Suc (image_calls d)\<rparr>"
  from Suc.prems(2) have now: "image d (image_calls d) \<noteq> FINGERPRINT_OK" by force
  from Suc.prems(1) have t: "unat t \<le> 100" by simp
  then have le: "\<not> 100 < t" by (simp add: word_less_nat_alt)
  from t have t1: "unat (t + 1) = unat t + 1" by (simp add: unat_word_ariths)
  have "\<forall>i<j. image d1 (image_calls d1 + i) \<noteq> FINGERPRINT_OK"
  proof (intro allI impI)
    fix i assume "i < j"
    then have "Suc i < Suc j" by simp
    with Suc.prems(2) have "image d (image_calls d + Suc i) \<noteq> FINGERPRINT_OK" by blast
    then show "image d1 (image_calls d1 + i) \<noteq> FINGERPRINT_OK" by (simp add: d1_def)
  qed
  moreover have "image d1 (image_calls d1 + j) = FINGERPRINT_OK"
    using Suc.prems(3) by (simp add: d1_def)
  moreover have "unat (t + 1) + j \<le> 101" using Suc.prems(1) t1 by simp
  ultimately have "awaitFinger100 (t + 1) d1 = (True, d1\<lparr>image_calls := image_calls d1 + Suc j\<rparr>)"
    by (intro Suc.IH)
  moreover have "awaitFinger100 t d = awaitFinger100 (t + 1) d1"
    using now le by (subst awaitFinger100.simps) (simp add: getImage_def d1_def)
  ultimately show ?case by (simp add: d1_def)
qed

lemma awaitFinger100_timeout:
  "n = 101 - unat t \<Longrightarrow> unat t \<le> 101 \<Longrightarrow>
   (\<forall>i\<le>n. image d (image_calls d + i) \<noteq> FINGERPRINT_OK) \<Longrightarrow>
   awaitFinger100 t d = (False, d\<lparr>image_calls := image_calls d + Suc n\<rparr>)"
proof (induction n arbitrary: d t)
  case 0
  then have "unat t = 101" by simp
  then have "100 < t" by (simp add: word_less_nat_alt)
  with 0 show ?case
    by (subst awaitFinger100.simps) (simp add: getImage_def)
next
  case (Suc n)
  define d1 where "d1 = d\<lparr>image_calls := Suc (image_calls d)\<rparr>"
  from Suc.prems(3) have now: "image d (image_calls d) \<noteq> FINGERPRINT_OK" by force
  from Suc.prems(1) have t: "unat t \<le> 100" by simp
  then have le: "\<not> 100 < t" by (simp add: word_less_nat_alt)
  from t have t1: "unat (t + 1) = unat t + 1" by (simp add: unat_word_ariths)
  have "\<forall>i\<le>n. image d1 (image_calls d1 + i) \<noteq> FINGERPRINT_OK"
  proof (intro allI impI)
    fix i assume "i \<le> n"
    then have "Suc i \<le> Suc n" by simp
    with Suc.prems(3) have "image d (image_calls d + Suc i) \<noteq> FINGERPRINT_OK" by blast
    then show "image d1 (image_calls d1 + i) \<noteq> FINGERPRINT_OK" by (simp add: d1_def)
  qed
  moreover have "n = 101 - unat (t + 1)" "unat (t + 1) \<le> 101" using Suc.prems(1) t1 by simp_all
  ultimately have "awaitFinger100 (t + 1) d1 = (False, d1\<lparr>image_calls := image_calls d1 + Suc n\<rparr>)"
    by (intro Suc.IH)
  moreover have "awaitFinger100 t d = awaitFinger100 (t + 1) d1"
    using now le by (subst awaitFinger100.simps) (simp add: getImage_def d1_def)
  ultimately show ?case by (simp add: d1_def)
qed

lemma awaitFinger200_first:
  "unat t + j \<le> 201 \<Longrightarrow>
   (\<forall>i<j. image d (image_calls d + i) \<noteq> FINGERPRINT_OK) \<Longrightarrow>
   image d (image_calls d + j) = FINGERPRINT_OK \<Longrightarrow>
   awaitFinger200 t d = (True, d\<lparr>image_calls := image_calls d + Suc j\<rparr>)"
proof (induction j arbitrary: d t)
  case 0
  then show ?case
    by (subst awaitFinger200.simps) (simp add: getImage_def)
next
  case (Suc j)
  define d1 where "d1 = d\<lparr>image_calls := Suc (image_calls d)\<rparr>"
  from Suc.prems(2) have now: "image d (image_calls d) \<noteq> FINGERPRINT_OK" by force
  from Suc.prems(1) have t: "unat t \<le> 200" by simp
  then have le: "\<not> 200 < t" by (simp add: word_less_nat_alt)
  from t have t1: "unat (t + 1) = unat t + 1" by (simp add: unat_word_ariths)
  have "\<forall>i<j. image d1 (image_calls d1 + i) \<noteq> FINGERPRINT_OK"
  proof (intro allI impI)
    fix i assume "i < j"
    then have "Suc i < Suc j" by simp
    with Suc.prems(2) have "image d (image_calls d + Suc i) \<noteq> FINGERPRINT_OK" by blast
    then show "image d1 (image_calls d1 + i) \<noteq> FINGERPRINT_OK" by (simp add: d1_def)
  qed
  moreover have "image d1 (image_calls d1 + j) = FINGERPRINT_OK"
    using Suc.prems(3) by (simp add: d1_def)
  moreover have "unat (t + 1) + j \<le> 201" using Suc.prems(1) t1 by simp
  ultimately have "awaitFinger200 (t + 1) d1 = (True, d1\<lparr>image_calls := image_calls d1 + Suc j\<rparr>)"
    by (intro Suc.IH)
  moreover have "awaitFinger200 t d = awaitFinger200 (t + 1) d1"
    using now le by (subst awaitFinger200.simps) (simp add: getImage_def d1_def)
  ultimately show ?case by (simp add: d1_def)
qed

lemma awaitFinger200_timeout:
  "n = 201 - unat t \<Longrightarrow> unat t \<le> 201 \<Longrightarrow>
   (\<forall>i\<le>n. image d (image_calls d + i) \<noteq> FINGERPRINT_OK) \<Longrightarrow>
   awaitFinger200 t d = (False, d\<lparr>image_calls := image_calls d + Suc n\<rparr>)"
proof (induction n arbitrary: d t)
  case 0
  then have "unat t = 201" by simp
  then have "200 < t" by (simp add: word_less_nat_alt)
  with 0 show ?case
    by (subst awaitFinger200.simps) (simp add: getImage_def)
next
  case (Suc n)
  define d1 where "d1 = d\<lparr>image_calls := Suc (image_calls d)\<rparr>"
  from Suc.prems(3) have now: "image d (image_calls d) \<noteq> FINGERPRINT_OK" by force
  from Suc.prems(1) have t: "unat t \<le> 200" by simp
  then have le: "\<not> 200 < t" by (simp add: word_less_nat_alt)
  from t have t1: "unat (t + 1) = unat t + 1" by (simp add: unat_word_ariths)
  have "\<forall>i\<le>n. image d1 (image_calls d1 + i) \<noteq> FINGERPRINT_OK"
  proof (intro allI impI)
    fix i assume "i \<le> n"
    then have "Suc i \<le> Suc n" by simp
    with Suc.prems(3) have "image d (image_calls d + Suc i) \<noteq> FINGERPRINT_OK" by blast
    then show "image d1 (image_calls d1 + i) \<noteq> FINGERPRINT_OK" by (simp add: d1_def)
  qed
  moreover have "n = 201 - unat (t + 1)" "unat (t + 1) \<le> 201" using Suc.prems(1) t1 by simp_all
  ultimately have "awaitFinger200 (t + 1) d1 = (False, d1\<lparr>image_calls := image_calls d1 + Suc n\<rparr>)"
    by (intro Suc.IH)
  moreover have "awaitFinger200 t d = awaitFinger200 (t + 1) d1"
    using now le by (subst awaitFinger200.simps) (simp add: getImage_def d1_def)
  ultimately show ?case by (simp add: d1_def)
qed

section \<open>Properties of the verification\<close>

lemma upload_keeps_sensor:
  assumes "uploadTemplateToBuffer T bufferID d = (r, d')"
  shows "image d' = image d \<and> image_calls d' = image_calls d \<and> tz d' = tz d
       \<and> tz_slots d' = tz_slots d \<and> sent d' = sent d \<and> ack d' = ack d
       \<and> ack_calls d' = (if serial_set d then Suc (ack_calls d) else ack_calls d)
       \<and> (serial_set d \<and> fst (ack d (ack_calls d)) = FINGERPRINT_OK
            \<and> snd (ack d (ack_calls d)) 0 = FINGERPRINT_OK \<longrightarrow> r = FINGERPRINT_OK)"
proof (cases "serial_set d")
  case True
  with assms show ?thesis
    by (auto simp: upload_flushed [OF True] Let_def split: prod.splits if_splits)
next
  case False
  with assms show ?thesis by (auto simp: uploadTemplateToBuffer_def)
qed

text \<open>
  \<^verbatim>\<open>matchWithTemplate\<close> from line 671 on, after a capture and an upload that succeeded and
  a first match response that the driver received.
\<close>

lemma match_after_response:
  assumes cap: "goodImage 0 d0 = (True, d1)"
    and up: "uploadTemplateToBuffer storedTemplate 2 d1 = (FINGERPRINT_OK, d2)"
    and first: "ack d2 (ack_calls d2) = (FINGERPRINT_OK, a1)"
    and d4: "d4 = d2\<lparr>sent := sent d2 @ [(FINGERPRINT_COMMANDPACKET, [0x03])],
                    ack_calls := Suc (ack_calls d2)\<rparr>"
  shows "matchWithTemplate storedTemplate score d0 =
      (if a1 0 = FINGERPRINT_OK then
         map_option (\<lambda>d5. (0, parseScore a1, d5)) (waitNoFinger d4)
       else if a1 0 = FINGERPRINT_ENROLLMISMATCH then
         (case awaitFinger100 0 d4 of
            (False, d5) \<Rightarrow> Some (4, score, d5)
          | (True, d5) \<Rightarrow>
             (case image2Tz 1 d5 of
                (p, d6) \<Rightarrow>
                  if p \<noteq> FINGERPRINT_OK then Some (4, score, d6)
                  else
                    (let d7 = writeStructuredPacket FINGERPRINT_COMMANDPACKET [0x03] d6
                     in case getStructuredPacket d7 of
                          ((p, matchAck), d8) \<Rightarrow>
                            if p = FINGERPRINT_OK \<and> matchAck 0 = FINGERPRINT_OK then
                              map_option (\<lambda>d9. (0, parseScore matchAck, d9)) (waitNoFinger d8)
                            else map_option (\<lambda>d9. (4, score, d9)) (waitNoFinger d8))))
       else map_option (\<lambda>d5. (4, score, d5)) (waitNoFinger d4))"
proof -
  have "getStructuredPacket (writeStructuredPacket FINGERPRINT_COMMANDPACKET [0x03] d2)
              = ((FINGERPRINT_OK, a1), d4)"
    using first by (simp add: getStructuredPacket_def writeStructuredPacket_def d4)
  then show ?thesis
    by (simp add: matchWithTemplate_def cap up Let_def)
qed

text \<open>
  C2, as stated, fails: on the mismatch result code the retry is not always performed. On
  \<open>lost_device\<close> the first match response has the mismatch code and no image arrives in the
  102 polls that follow. The function returns 4 with the score untouched after 103 polls
  in all; it has sent the match command once, not twice, and has converted one image, the
  one of the capture: no image was acquired again and no match command was issued again.
\<close>

theorem match_retry_counterexample:
  "map_option fst (matchWithTemplate (replicate 512 0xAA) 7 lost_device) = Some 4
   \<and> map_option (fst \<circ> snd) (matchWithTemplate (replicate 512 0xAA) 7 lost_device) = Some 7
   \<and> map_option (sent \<circ> snd \<circ> snd) (matchWithTemplate (replicate 512 0xAA) 7 lost_device)
     = Some [(FINGERPRINT_COMMANDPACKET, [0x03])]
   \<and> map_option (tz_slots \<circ> snd \<circ> snd) (matchWithTemplate (replicate 512 0xAA) 7 lost_device)
     = Some [1]
   \<and> map_option (image_calls \<circ> snd \<circ> snd) (matchWithTemplate (replicate 512 0xAA) 7 lost_device)
     = Some 103"
proof -
  define T :: "u8 list" where "T = replicate 512 0xAA"
  define d1 where "d1 = lost_device\<lparr>image_calls := 1, tz_slots := [1]\<rparr>"
  have cap: "goodImage 0 lost_device = (True, d1)"
    by (subst goodImage.simps)
       (simp add: getImage_def image2Tz_def lost_device_def quiet_device_def d1_def)
  obtain r d2 where up: "uploadTemplateToBuffer T 2 d1 = (r, d2)"
    by (cases "uploadTemplateToBuffer T 2 d1")
  have d1: "serial_set d1" "ack d1 (ack_calls d1) = (FINGERPRINT_OK, \<lambda>i. 0)"
    "image d1 = image lost_device" "image_calls d1 = 1"
    "tz_slots d1 = [1]" "sent d1 = []" "ack d1 = ack lost_device" "ack_calls d1 = 0"
    by (simp_all add: d1_def lost_device_def quiet_device_def)
  from upload_keeps_sensor [OF up] d1 have d2: "r = FINGERPRINT_OK"
    "image d2 = image lost_device" "image_calls d2 = 1"
    "tz_slots d2 = [1]" "sent d2 = []" "ack d2 = ack lost_device" "ack_calls d2 = 1"
    by simp_all
  define d4 where "d4 = d2\<lparr>sent := sent d2 @ [(FINGERPRINT_COMMANDPACKET, [0x03])],
                    ack_calls := Suc (ack_calls d2)\<rparr>"
  define a1 :: "nat \<Rightarrow> u8" where "a1 = (\<lambda>i. if i = 0 then FINGERPRINT_ENROLLMISMATCH else 0)"
  have first: "ack d2 (ack_calls d2) = (FINGERPRINT_OK, a1)"
    by (simp add: d2 lost_device_def a1_def)
  have up': "uploadTemplateToBuffer T 2 d1 = (FINGERPRINT_OK, d2)"
    using up d2(1) by simp
  have d4: "image d4 = image lost_device" "image_calls d4 = 1" "tz_slots d4 = [1]"
    "sent d4 = [(FINGERPRINT_COMMANDPACKET, [0x03])]"
    by (simp_all add: d4_def d2)
  have "\<forall>i\<le>101. image d4 (image_calls d4 + i) \<noteq> FINGERPRINT_OK"
    by (simp add: d4 lost_device_def)
  from awaitFinger100_timeout [of 101 0 d4, OF _ _ this]
  have wait: "awaitFinger100 0 d4 = (False, d4\<lparr>image_calls := image_calls d4 + Suc 101\<rparr>)"
    by simp
  have "matchWithTemplate T 7 lost_device
        = Some (4, 7, d4\<lparr>image_calls := image_calls d4 + Suc 101\<rparr>)"
    unfolding match_after_response [OF cap up' first d4_def, of 7]
    by (simp add: a1_def wait)
  then show ?thesis by (simp add: T_def d4)
qed

text \<open>
  C2, amended. After a successful capture and upload, and a first match response that the
  driver received, with result code \<open>a1 0\<close>:

  \<^item> result code OK: once the finger is removed the function returns 0 with the score of that
    response; it has sent one match command, read one response and converted no further
    image.
  \<^item> result code \<^verbatim>\<open>FINGERPRINT_ENROLLMISMATCH\<close>: the function polls for one more image. When
    that arrives within 102 polls and is converted, it sends the match command a second
    time and, once the finger is removed, returns what the second response says: 0 with
    its score when it was received with result code OK, else 4. When no image arrives
    within 102 polls, or the conversion fails, it returns 4 at once. In no case is there a
    third match command.
  \<^item> any other result code: once the finger is removed the function returns 4; it has sent
    one match command.
\<close>

theorem match_retry_policy:
  assumes cap: "goodImage 0 d0 = (True, d1)"
    and up: "uploadTemplateToBuffer storedTemplate 2 d1 = (FINGERPRINT_OK, d2)"
    and first: "ack d2 (ack_calls d2) = (FINGERPRINT_OK, a1)"
    and m: "m = (FINGERPRINT_COMMANDPACKET, [0x03])"
    and c: "c = image_calls d2"
  shows "(a1 0 = FINGERPRINT_OK \<longrightarrow>
           (\<forall>k. (\<forall>i<k. image d2 (c + i) \<noteq> FINGERPRINT_NOFINGER) \<longrightarrow>
                image d2 (c + k) = FINGERPRINT_NOFINGER \<longrightarrow>
                matchWithTemplate storedTemplate score d0
                = Some (0, parseScore a1,
                        d2\<lparr>sent := sent d2 @ [m], ack_calls := ack_calls d2 + 1,
                           image_calls := c + Suc k\<rparr>)))
       \<and> (a1 0 = FINGERPRINT_ENROLLMISMATCH \<longrightarrow>
           (\<forall>j k p2 a2.
                j \<le> 101 \<longrightarrow> (\<forall>i<j. image d2 (c + i) \<noteq> FINGERPRINT_OK) \<longrightarrow>
                image d2 (c + j) = FINGERPRINT_OK \<longrightarrow>
                tz d2 (length (tz_slots d2)) = FINGERPRINT_OK \<longrightarrow>
                ack d2 (ack_calls d2 + 1) = (p2, a2) \<longrightarrow>
                (\<forall>i<k. image d2 (c + Suc j + i) \<noteq> FINGERPRINT_NOFINGER) \<longrightarrow>
                image d2 (c + Suc j + k) = FINGERPRINT_NOFINGER \<longrightarrow>
                matchWithTemplate storedTemplate score d0
                = Some (if p2 = FINGERPRINT_OK \<and> a2 0 = FINGERPRINT_OK then 0 else 4,
                        if p2 = FINGERPRINT_OK \<and> a2 0 = FINGERPRINT_OK then parseScore a2
                        else score,
                        d2\<lparr>sent := sent d2 @ [m, m], ack_calls := ack_calls d2 + 2,
                           tz_slots := tz_slots d2 @ [1],
                           image_calls := c + Suc j + Suc k\<rparr>))
         \<and> (\<forall>j. j \<le> 101 \<longrightarrow> (\<forall>i<j. image d2 (c + i) \<noteq> FINGERPRINT_OK) \<longrightarrow>
                image d2 (c + j) = FINGERPRINT_OK \<longrightarrow>
                tz d2 (length (tz_slots d2)) \<noteq> FINGERPRINT_OK \<longrightarrow>
                matchWithTemplate storedTemplate score d0
                = Some (4, score,
                        d2\<lparr>sent := sent d2 @ [m], ack_calls := ack_calls d2 + 1,
                           tz_slots := tz_slots d2 @ [1], image_calls := c + Suc j\<rparr>))
         \<and> ((\<forall>i\<le>101. image d2 (c + i) \<noteq> FINGERPRINT_OK) \<longrightarrow>
                matchWithTemplate storedTemplate score d0
                = Some (4, score,
                        d2\<lparr>sent := sent d2 @ [m], ack_calls := ack_calls d2 + 1,
                           image_calls := c + 102\<rparr>)))
       \<and> (a1 0 \<noteq> FINGERPRINT_OK \<longrightarrow> a1 0 \<noteq> FINGERPRINT_ENROLLMISMATCH \<longrightarrow>
           (\<forall>k. (\<forall>i<k. image d2 (c + i) \<noteq> FINGERPRINT_NOFINGER) \<longrightarrow>
                image d2 (c + k) = FINGERPRINT_NOFINGER \<longrightarrow>
                matchWithTemplate storedTemplate score d0
                = Some (4, score,
                        d2\<lparr>sent := sent d2 @ [m], ack_calls := ack_calls d2 + 1,
                           image_calls := c + Suc k\<rparr>)))"
proof -
  define d4 where "d4 = d2\<lparr>sent := sent d2 @ [m], ack_calls := Suc (ack_calls d2)\<rparr>"
  have d4: "image d4 = image d2" "image_calls d4 = c" "tz d4 = tz d2" "tz_slots d4 = tz_slots d2"
    "ack d4 = ack d2" "ack_calls d4 = Suc (ack_calls d2)" "sent d4 = sent d2 @ [m]"
    by (simp_all add: d4_def c)
  note run = match_after_response [OF cap up first d4_def [unfolded m], of score]
  have wait4: "waitNoFinger d4 = Some (d4\<lparr>image_calls := c + Suc k\<rparr>)"
    if "\<forall>i<k. image d2 (c + i) \<noteq> FINGERPRINT_NOFINGER"
      "image d2 (c + k) = FINGERPRINT_NOFINGER" for k
    using waitNoFinger_first [of k d4] that by (simp add: d4)
  have A: "matchWithTemplate storedTemplate score d0
           = Some (0, parseScore a1,
                   d2\<lparr>sent := sent d2 @ [m], ack_calls := ack_calls d2 + 1,
                      image_calls := c + Suc k\<rparr>)"
    if "a1 0 = FINGERPRINT_OK" "\<forall>i<k. image d2 (c + i) \<noteq> FINGERPRINT_NOFINGER"
      "image d2 (c + k) = FINGERPRINT_NOFINGER" for k
    using that(1) wait4 [OF that(2,3)] by (simp add: run d4_def)
  have C: "matchWithTemplate storedTemplate score d0
           = Some (4, score,
                   d2\<lparr>sent := sent d2 @ [m], ack_calls := ack_calls d2 + 1,
                      image_calls := c + Suc k\<rparr>)"
    if "a1 0 \<noteq> FINGERPRINT_OK" "a1 0 \<noteq> FINGERPRINT_ENROLLMISMATCH"
      "\<forall>i<k. image d2 (c + i) \<noteq> FINGERPRINT_NOFINGER"
      "image d2 (c + k) = FINGERPRINT_NOFINGER" for k
    using that(1,2) wait4 [OF that(3,4)] by (simp add: run d4_def)
  have acquire: "awaitFinger100 0 d4 = (True, d4\<lparr>image_calls := c + Suc j\<rparr>)"
    if "j \<le> 101" "\<forall>i<j. image d2 (c + i) \<noteq> FINGERPRINT_OK"
      "image d2 (c + j) = FINGERPRINT_OK" for j
    using awaitFinger100_first [of 0 j d4] that by (simp add: d4)
  have B1: "matchWithTemplate storedTemplate score d0
           = Some (if p2 = FINGERPRINT_OK \<and> a2 0 = FINGERPRINT_OK then 0 else 4,
                   if p2 = FINGERPRINT_OK \<and> a2 0 = FINGERPRINT_OK then parseScore a2 else score,
                   d2\<lparr>sent := sent d2 @ [m, m], ack_calls := ack_calls d2 + 2,
                      tz_slots := tz_slots d2 @ [1], image_calls := c + Suc j + Suc k\<rparr>)"
    if mis: "a1 0 = FINGERPRINT_ENROLLMISMATCH"
      and img: "j \<le> 101" "\<forall>i<j. image d2 (c + i) \<noteq> FINGERPRINT_OK"
        "image d2 (c + j) = FINGERPRINT_OK"
      and conv: "tz d2 (length (tz_slots d2)) = FINGERPRINT_OK"
      and second: "ack d2 (ack_calls d2 + 1) = (p2, a2)"
      and gone: "\<forall>i<k. image d2 (c + Suc j + i) \<noteq> FINGERPRINT_NOFINGER"
        "image d2 (c + Suc j + k) = FINGERPRINT_NOFINGER"
    for j k p2 a2
  proof -
    define n1 where "n1 = c + Suc j"
    define d5 where "d5 = d4\<lparr>image_calls := n1\<rparr>"
    define d6 where "d6 = d5\<lparr>tz_slots := tz_slots d2 @ [1]\<rparr>"
    define d8 where "d8 = d6\<lparr>sent := sent d2 @ [m, m], ack_calls := ack_calls d2 + 2\<rparr>"
    have acq: "awaitFinger100 0 d4 = (True, d5)"
      using acquire [OF img] by (simp add: d5_def n1_def)
    have tz: "image2Tz 1 d5 = (FINGERPRINT_OK, d6)"
      using conv by (simp add: image2Tz_def d4 d5_def d6_def)
    have resp2: "getStructuredPacket (writeStructuredPacket FINGERPRINT_COMMANDPACKET [0x03] d6)
                 = ((p2, a2), d8)"
      using second
      by (simp add: getStructuredPacket_def writeStructuredPacket_def d4 d5_def d6_def d8_def m)
    have "waitNoFinger d8 = Some (d8\<lparr>image_calls := image_calls d8 + Suc k\<rparr>)"
      using waitNoFinger_first [of k d8] gone by (simp add: d8_def d6_def d5_def d4 n1_def)
    then have w: "waitNoFinger d8 = Some (d8\<lparr>image_calls := c + Suc j + Suc k\<rparr>)"
      by (simp add: d8_def d6_def d5_def n1_def)
    have "matchWithTemplate storedTemplate score d0
          = (if p2 = FINGERPRINT_OK \<and> a2 0 = FINGERPRINT_OK
             then Some (0, parseScore a2, d8\<lparr>image_calls := c + Suc j + Suc k\<rparr>)
             else Some (4, score, d8\<lparr>image_calls := c + Suc j + Suc k\<rparr>))"
      using mis by (simp add: run acq tz resp2 w Let_def)
    moreover have "d8\<lparr>image_calls := c + Suc j + Suc k\<rparr>
        = d2\<lparr>sent := sent d2 @ [m, m], ack_calls := ack_calls d2 + 2,
             tz_slots := tz_slots d2 @ [1], image_calls := c + Suc j + Suc k\<rparr>"
      by (simp add: d8_def d6_def d5_def d4_def)
    ultimately show ?thesis by simp
  qed
  have B2: "matchWithTemplate storedTemplate score d0
           = Some (4, score,
                   d2\<lparr>sent := sent d2 @ [m], ack_calls := ack_calls d2 + 1,
                      tz_slots := tz_slots d2 @ [1], image_calls := c + Suc j\<rparr>)"
    if mis: "a1 0 = FINGERPRINT_ENROLLMISMATCH"
      and img: "j \<le> 101" "\<forall>i<j. image d2 (c + i) \<noteq> FINGERPRINT_OK"
        "image d2 (c + j) = FINGERPRINT_OK"
      and conv: "tz d2 (length (tz_slots d2)) \<noteq> FINGERPRINT_OK"
    for j
  proof -
    define n1 where "n1 = c + Suc j"
    define d5 where "d5 = d4\<lparr>image_calls := n1\<rparr>"
    define d6 where "d6 = d5\<lparr>tz_slots := tz_slots d2 @ [1]\<rparr>"
    have acq: "awaitFinger100 0 d4 = (True, d5)"
      using acquire [OF img] by (simp add: d5_def n1_def)
    have tz: "image2Tz 1 d5 = (tz d2 (length (tz_slots d2)), d6)"
      by (simp add: image2Tz_def d4 d5_def d6_def)
    have "matchWithTemplate storedTemplate score d0 = Some (4, score, d6)"
      using mis conv by (simp add: run acq tz)
    moreover have "d6 = d2\<lparr>sent := sent d2 @ [m], ack_calls := ack_calls d2 + 1,
                      tz_slots := tz_slots d2 @ [1], image_calls := c + Suc j\<rparr>"
      by (simp add: d6_def d5_def d4_def n1_def)
    ultimately show ?thesis by simp
  qed
  have B3: "matchWithTemplate storedTemplate score d0
           = Some (4, score,
                   d2\<lparr>sent := sent d2 @ [m], ack_calls := ack_calls d2 + 1,
                      image_calls := c + 102\<rparr>)"
    if mis: "a1 0 = FINGERPRINT_ENROLLMISMATCH"
      and none: "\<forall>i\<le>101. image d2 (c + i) \<noteq> FINGERPRINT_OK"
  proof -
    define d5 where "d5 = d4\<lparr>image_calls := c + 102\<rparr>"
    have "awaitFinger100 0 d4 = (False, d4\<lparr>image_calls := image_calls d4 + Suc 101\<rparr>)"
      using none by (intro awaitFinger100_timeout) (simp_all add: d4)
    then have "awaitFinger100 0 d4 = (False, d5)" by (simp add: d5_def d4)
    with mis have "matchWithTemplate storedTemplate score d0 = Some (4, score, d5)"
      by (simp add: run)
    moreover have "d5 = d2\<lparr>sent := sent d2 @ [m], ack_calls := ack_calls d2 + 1,
                      image_calls := c + 102\<rparr>"
      by (simp add: d5_def d4_def)
    ultimately show ?thesis by simp
  qed
  from A B1 B2 B3 C show ?thesis by blast
qed


lemma match_device_setup:
  "\<exists>d1 d2. goodImage 0 (match_device r1 r2) = (True, d1)
     \<and> uploadTemplateToBuffer T 2 d1 = (FINGERPRINT_OK, d2)
     \<and> image d2 = image (match_device r1 r2) \<and> image_calls d2 = 1
     \<and> tz d2 = (\<lambda>k. FINGERPRINT_OK) \<and> tz_slots d2 = [1] \<and> sent d2 = []
     \<and> ack d2 = ack (match_device r1 r2) \<and> ack_calls d2 = 1"
proof -
  define d1 where "d1 = (match_device r1 r2)\<lparr>image_calls := 1, tz_slots := [1]\<rparr>"
  have cap: "goodImage 0 (match_device r1 r2) = (True, d1)"
    by (subst goodImage.simps)
       (simp add: getImage_def image2Tz_def match_device_def quiet_device_def d1_def)
  obtain r d2 where up: "uploadTemplateToBuffer T 2 d1 = (r, d2)"
    by (cases "uploadTemplateToBuffer T 2 d1")
  have d1: "serial_set d1" "ack d1 (ack_calls d1) = (FINGERPRINT_OK, \<lambda>i. 0)"
    "image d1 = image (match_device r1 r2)" "image_calls d1 = 1" "tz d1 = (\<lambda>k. FINGERPRINT_OK)"
    "tz_slots d1 = [1]" "sent d1 = []" "ack d1 = ack (match_device r1 r2)" "ack_calls d1 = 0"
    by (simp_all add: d1_def match_device_def quiet_device_def)
  from upload_keeps_sensor [OF up] d1 have "r = FINGERPRINT_OK"
    "image d2 = image (match_device r1 r2)" "image_calls d2 = 1" "tz d2 = (\<lambda>k. FINGERPRINT_OK)"
    "tz_slots d2 = [1]" "sent d2 = []" "ack d2 = ack (match_device r1 r2)" "ack_calls d2 = 1"
    by simp_all
  with cap up show ?thesis by blast
qed

text \<open>
  The theorem at four devices: success at once; mismatch and then success; mismatch
  twice; another result code at once. Shown are the status, the score and the packets
  sent through the driver: one match command, or two.
\<close>

theorem match_retry_policy_witness:
  "map_option (\<lambda>(r, s, d). (r, s, sent d))
     (matchWithTemplate (replicate 512 0xAA) 7 (match_device FINGERPRINT_OK 0))
   = Some (0, 300, [(FINGERPRINT_COMMANDPACKET, [0x03])])
   \<and> map_option (\<lambda>(r, s, d). (r, s, sent d))
     (matchWithTemplate (replicate 512 0xAA) 7
        (match_device FINGERPRINT_ENROLLMISMATCH FINGERPRINT_OK))
   = Some (0, 100, [(FINGERPRINT_COMMANDPACKET, [0x03]), (FINGERPRINT_COMMANDPACKET, [0x03])])
   \<and> map_option (\<lambda>(r, s, d). (r, s, sent d))
     (matchWithTemplate (replicate 512 0xAA) 7
        (match_device FINGERPRINT_ENROLLMISMATCH FINGERPRINT_ENROLLMISMATCH))
   = Some (4, 7, [(FINGERPRINT_COMMANDPACKET, [0x03]), (FINGERPRINT_COMMANDPACKET, [0x03])])
   \<and> map_option (\<lambda>(r, s, d). (r, s, sent d))
     (matchWithTemplate (replicate 512 0xAA) 7 (match_device 0x09 0))
   = Some (4, 7, [(FINGERPRINT_COMMANDPACKET, [0x03])])"
proof -
  define T :: "u8 list" where "T = replicate 512 0xAA"
  define m :: "u8 \<times> u8 list" where "m = (FINGERPRINT_COMMANDPACKET, [0x03])"
  have s300: "parseScore (\<lambda>i. if i = 0 then r else if i = 1 then 0x01 else 0x2C) = 300" for r :: u8
    by (simp add: parseScore_def)
  have s100: "parseScore (\<lambda>i. if i = 0 then r else if i = 1 then 0x00 else 0x64) = 100" for r :: u8
    by (simp add: parseScore_def)
  have one: "map_option (\<lambda>(r, s, d). (r, s, sent d))
     (matchWithTemplate T 7 (match_device FINGERPRINT_OK 0)) = Some (0, 300, [m])"
  proof -
    from match_device_setup [of FINGERPRINT_OK 0 T] obtain d1 d2 where
      cap: "goodImage 0 (match_device FINGERPRINT_OK 0) = (True, d1)"
      and up: "uploadTemplateToBuffer T 2 d1 = (FINGERPRINT_OK, d2)"
      and d2: "image d2 = image (match_device FINGERPRINT_OK 0)" "image_calls d2 = 1"
        "tz d2 = (\<lambda>k. FINGERPRINT_OK)" "tz_slots d2 = [1]" "sent d2 = []"
        "ack d2 = ack (match_device FINGERPRINT_OK 0)" "ack_calls d2 = 1"
      by blast
    have first: "ack d2 (ack_calls d2)
        = (FINGERPRINT_OK, \<lambda>i. if i = 0 then FINGERPRINT_OK else if i = 1 then 0x01 else 0x2C)"
      by (simp add: d2 match_device_def)
    from match_retry_policy [OF cap up first m_def refl, of 7]
    have "\<forall>k. (\<forall>i<k. image d2 (image_calls d2 + i) \<noteq> FINGERPRINT_NOFINGER) \<longrightarrow>
            image d2 (image_calls d2 + k) = FINGERPRINT_NOFINGER \<longrightarrow>
            matchWithTemplate T 7 (match_device FINGERPRINT_OK 0)
            = Some (0, 300, d2\<lparr>sent := sent d2 @ [m], ack_calls := ack_calls d2 + 1,
                       image_calls := image_calls d2 + Suc k\<rparr>)"
      by (simp add: s300)
    then have "(\<forall>i<1. image d2 (image_calls d2 + i) \<noteq> FINGERPRINT_NOFINGER) \<longrightarrow>
            image d2 (image_calls d2 + 1) = FINGERPRINT_NOFINGER \<longrightarrow>
            matchWithTemplate T 7 (match_device FINGERPRINT_OK 0)
            = Some (0, 300, d2\<lparr>sent := sent d2 @ [m], ack_calls := ack_calls d2 + 1,
                       image_calls := image_calls d2 + Suc 1\<rparr>)"
      by blast
    then show ?thesis by (simp add: d2 match_device_def)
  qed
  have two: "map_option (\<lambda>(r, s, d). (r, s, sent d))
     (matchWithTemplate T 7 (match_device FINGERPRINT_ENROLLMISMATCH r2))
     = Some (if r2 = FINGERPRINT_OK then (0, 100, [m, m]) else (4, 7, [m, m]))" for r2
  proof -
    let ?dev = "match_device FINGERPRINT_ENROLLMISMATCH r2"
    from match_device_setup [of FINGERPRINT_ENROLLMISMATCH r2 T] obtain d1 d2 where
      cap: "goodImage 0 ?dev = (True, d1)"
      and up: "uploadTemplateToBuffer T 2 d1 = (FINGERPRINT_OK, d2)"
      and d2: "image d2 = image ?dev" "image_calls d2 = 1"
        "tz d2 = (\<lambda>k. FINGERPRINT_OK)" "tz_slots d2 = [1]" "sent d2 = []"
        "ack d2 = ack ?dev" "ack_calls d2 = 1"
      by blast
    have first: "ack d2 (ack_calls d2)
        = (FINGERPRINT_OK, \<lambda>i. if i = 0 then FINGERPRINT_ENROLLMISMATCH
                               else if i = 1 then 0x01 else 0x2C)"
      by (simp add: d2 match_device_def)
    have second: "ack d2 (ack_calls d2 + 1)
        = (FINGERPRINT_OK, \<lambda>i. if i = 0 then r2 else if i = 1 then 0x00 else 0x64)"
      by (simp add: d2 match_device_def)
    from match_retry_policy [OF cap up first m_def refl, of 7]
    have "\<forall>j k p2 a2.
                j \<le> 101 \<longrightarrow> (\<forall>i<j. image d2 (image_calls d2 + i) \<noteq> FINGERPRINT_OK) \<longrightarrow>
                image d2 (image_calls d2 + j) = FINGERPRINT_OK \<longrightarrow>
                tz d2 (length (tz_slots d2)) = FINGERPRINT_OK \<longrightarrow>
                ack d2 (ack_calls d2 + 1) = (p2, a2) \<longrightarrow>
                (\<forall>i<k. image d2 (image_calls d2 + Suc j + i) \<noteq> FINGERPRINT_NOFINGER) \<longrightarrow>
                image d2 (image_calls d2 + Suc j + k) = FINGERPRINT_NOFINGER \<longrightarrow>
                matchWithTemplate T 7 ?dev
                = Some (if p2 = FINGERPRINT_OK \<and> a2 0 = FINGERPRINT_OK then 0 else 4,
                        if p2 = FINGERPRINT_OK \<and> a2 0 = FINGERPRINT_OK then parseScore a2
                        else 7,
                        d2\<lparr>sent := sent d2 @ [m, m], ack_calls := ack_calls d2 + 2,
                           tz_slots := tz_slots d2 @ [1],
                           image_calls := image_calls d2 + Suc j + Suc k\<rparr>)"
      by simp
    note inst = this [THEN spec [where x = 0], THEN spec [where x = 0],
        THEN spec [where x = FINGERPRINT_OK],
        THEN spec [where x = "\<lambda>i. if i = 0 then r2 else if i = 1 then 0x00 else 0x64"]]
    from inst second
    have "matchWithTemplate T 7 ?dev
          = Some (if r2 = FINGERPRINT_OK then 0 else 4,
                  if r2 = FINGERPRINT_OK then 100 else 7,
                  d2\<lparr>sent := sent d2 @ [m, m], ack_calls := ack_calls d2 + 2,
                     tz_slots := tz_slots d2 @ [1],
                     image_calls := image_calls d2 + Suc 0 + Suc 0\<rparr>)"
      by (simp add: d2 match_device_def s100)
    then show ?thesis by (simp add: d2)
  qed
  have three: "map_option (\<lambda>(r, s, d). (r, s, sent d))
     (matchWithTemplate T 7 (match_device 0x09 0)) = Some (4, 7, [m])"
  proof -
    from match_device_setup [of 9 0 T] obtain d1 d2 where
      cap: "goodImage 0 (match_device 0x09 0) = (True, d1)"
      and up: "uploadTemplateToBuffer T 2 d1 = (FINGERPRINT_OK, d2)"
      and d2: "image d2 = image (match_device 0x09 0)" "image_calls d2 = 1"
        "tz d2 = (\<lambda>k. FINGERPRINT_OK)" "tz_slots d2 = [1]" "sent d2 = []"
        "ack d2 = ack (match_device 0x09 0)" "ack_calls d2 = 1"
      by blast
    have first: "ack d2 (ack_calls d2)
        = (FINGERPRINT_OK, \<lambda>i. if i = 0 then 0x09 else if i = 1 then 0x01 else 0x2C)"
      by (simp add: d2 match_device_def)
    from match_retry_policy [OF cap up first m_def refl, of 7]
    have "\<forall>k. (\<forall>i<k. image d2 (image_calls d2 + i) \<noteq> FINGERPRINT_NOFINGER) \<longrightarrow>
            image d2 (image_calls d2 + k) = FINGERPRINT_NOFINGER \<longrightarrow>
            matchWithTemplate T 7 (match_device 0x09 0)
            = Some (4, 7, d2\<lparr>sent := sent d2 @ [m], ack_calls := ack_calls d2 + 1,
                       image_calls := image_calls d2 + Suc k\<rparr>)"
      by simp
    then have "(\<forall>i<1. image d2 (image_calls d2 + i) \<noteq> FINGERPRINT_NOFINGER) \<longrightarrow>
            image d2 (image_calls d2 + 1) = FINGERPRINT_NOFINGER \<longrightarrow>
            matchWithTemplate T 7 (match_device 0x09 0)
            = Some (4, 7, d2\<lparr>sent := sent d2 @ [m], ack_calls := ack_calls d2 + 1,
                       image_calls := image_calls d2 + Suc 1\<rparr>)"
      by blast
    then show ?thesis by (simp add: d2 match_device_def)
  qed
  from one two [of FINGERPRINT_OK] two [of FINGERPRINT_ENROLLMISMATCH] three
  show ?thesis by (simp add: T_def m_def)
qed


text \<open>
  C9 fails on the code. On \<open>stuck_device\<close> \<^verbatim>\<open>matchWithTemplate\<close> returns 4 from line 705,
  after the second conversion failed: it has polled the sensor twice, both polls reported
  an image, and no poll reported that the finger is gone.
\<close>

theorem match_returns_with_finger_present:
  "map_option fst (matchWithTemplate (replicate 512 0xAA) 7 stuck_device) = Some 4
   \<and> map_option (image_calls \<circ> snd \<circ> snd)
       (matchWithTemplate (replicate 512 0xAA) 7 stuck_device) = Some 2
   \<and> map_option (tz_slots \<circ> snd \<circ> snd)
       (matchWithTemplate (replicate 512 0xAA) 7 stuck_device) = Some [1, 1]
   \<and> image stuck_device = (\<lambda>k. FINGERPRINT_OK)"
proof -
  define T :: "u8 list" where "T = replicate 512 0xAA"
  define d1 where "d1 = stuck_device\<lparr>image_calls := 1, tz_slots := [1]\<rparr>"
  have cap: "goodImage 0 stuck_device = (True, d1)"
    by (subst goodImage.simps)
       (simp add: getImage_def image2Tz_def stuck_device_def quiet_device_def d1_def)
  obtain r d2 where up0: "uploadTemplateToBuffer T 2 d1 = (r, d2)"
    by (cases "uploadTemplateToBuffer T 2 d1")
  have d1: "serial_set d1" "ack d1 (ack_calls d1) = (FINGERPRINT_OK, \<lambda>i. 0)"
    "image d1 = (\<lambda>k. FINGERPRINT_OK)" "image_calls d1 = 1" "tz d1 = tz stuck_device"
    "tz_slots d1 = [1]" "ack d1 = ack stuck_device" "ack_calls d1 = 0"
    by (simp_all add: d1_def stuck_device_def quiet_device_def)
  from upload_keeps_sensor [OF up0] d1 have r: "r = FINGERPRINT_OK" and
    d2: "image d2 = (\<lambda>k. FINGERPRINT_OK)" "image_calls d2 = 1" "tz d2 = tz stuck_device"
    "tz_slots d2 = [1]" "ack d2 = ack stuck_device" "ack_calls d2 = 1"
    by simp_all
  from up0 r have up: "uploadTemplateToBuffer T 2 d1 = (FINGERPRINT_OK, d2)" by simp
  have first: "ack d2 (ack_calls d2) = (FINGERPRINT_OK, \<lambda>i. FINGERPRINT_ENROLLMISMATCH)"
    by (simp add: d2 stuck_device_def)
  define d4 where "d4 = d2\<lparr>sent := sent d2 @ [(FINGERPRINT_COMMANDPACKET, [0x03])],
                    ack_calls := Suc (ack_calls d2)\<rparr>"
  define d5 where "d5 = d4\<lparr>image_calls := 2\<rparr>"
  define d6 where "d6 = d5\<lparr>tz_slots := [1, 1]\<rparr>"
  have "awaitFinger100 0 d4 = (True, d4\<lparr>image_calls := image_calls d4 + Suc 0\<rparr>)"
    by (rule awaitFinger100_first) (simp_all add: d4_def d2)
  then have acq: "awaitFinger100 0 d4 = (True, d5)" by (simp add: d5_def d4_def d2)
  have conv: "image2Tz 1 d5 = (FINGERPRINT_FEATUREFAIL, d6)"
    by (simp add: image2Tz_def d6_def d5_def d4_def d2 stuck_device_def)
  have "matchWithTemplate T 7 stuck_device = Some (4, 7, d6)"
    by (simp add: match_after_response [OF cap up first d4_def] acq conv)
  moreover have "image_calls d6 = 2" "tz_slots d6 = [1, 1]"
    by (simp_all add: d6_def d5_def)
  ultimately show ?thesis by (simp add: T_def stuck_device_def)
qed

section \<open>Properties of the enrollment\<close>

lemma enroll_device_scans:
  "\<exists>d1 d2 d3 d4 d5 d6.
      awaitFinger200 0 (enroll_device code) = (True, d1)
    \<and> image2Tz 1 d1 = (FINGERPRINT_OK, d2)
    \<and> waitNoFinger d2 = Some d3
    \<and> awaitFinger200 0 d3 = (True, d4)
    \<and> image2Tz 2 d4 = (FINGERPRINT_OK, d5)
    \<and> createModel d5 = (code, d6)
    \<and> d6 = (enroll_device code)\<lparr>image_calls := 3, tz_slots := [1, 2], model_calls := 1\<rparr>"
proof -
  define d1 where "d1 = (enroll_device code)\<lparr>image_calls := 1\<rparr>"
  define d2 where "d2 = d1\<lparr>tz_slots := [1]\<rparr>"
  define d3 where "d3 = d2\<lparr>image_calls := 2\<rparr>"
  define d4 where "d4 = d3\<lparr>image_calls := 3\<rparr>"
  define d5 where "d5 = d4\<lparr>tz_slots := [1, 2]\<rparr>"
  define d6 where "d6 = d5\<lparr>model_calls := 1\<rparr>"
  have "awaitFinger200 0 (enroll_device code) = (True, d1)"
    by (subst awaitFinger200.simps)
       (simp add: getImage_def enroll_device_def quiet_device_def d1_def)
  moreover have "image2Tz 1 d1 = (FINGERPRINT_OK, d2)"
    by (simp add: image2Tz_def enroll_device_def quiet_device_def d1_def d2_def)
  moreover have "waitNoFinger d2 = Some d3"
    by (subst waitNoFinger.simps)
       (simp add: getImage_def enroll_device_def quiet_device_def d1_def d2_def d3_def)
  moreover have "awaitFinger200 0 d3 = (True, d4)"
    by (subst awaitFinger200.simps)
       (simp add: getImage_def enroll_device_def quiet_device_def d1_def d2_def d3_def d4_def)
  moreover have "image2Tz 2 d4 = (FINGERPRINT_OK, d5)"
    by (simp add: image2Tz_def enroll_device_def quiet_device_def d1_def d2_def d3_def d4_def
        d5_def)
  moreover have "createModel d5 = (code, d6)"
    by (simp add: createModel_def enroll_device_def quiet_device_def d1_def d2_def d3_def
        d4_def d5_def d6_def)
  moreover have "d6 = (enroll_device code)\<lparr>image_calls := 3, tz_slots := [1, 2],
      model_calls := 1\<rparr>"
    by (simp add: d1_def d2_def d3_def d4_def d5_def d6_def)
  ultimately show ?thesis by blast
qed

text \<open>
  C7, as stated, fails: when \<^verbatim>\<open>createModel\<close> returns the code 0x01, which is neither OK nor
  the mismatch code, \<^verbatim>\<open>enrollAndGetTemplate\<close> returns 3 and not 0x01, and it returns the very
  same 3 when \<^verbatim>\<open>createModel\<close> returns \<^verbatim>\<open>FINGERPRINT_ENROLLMISMATCH\<close>.
\<close>

theorem enroll_model_code_counterexample:
  "map_option fst (enrollAndGetTemplate (replicate 512 0) (enroll_device 0x01)) = Some 3
   \<and> map_option fst (enrollAndGetTemplate (replicate 512 0)
        (enroll_device FINGERPRINT_ENROLLMISMATCH)) = Some 3"
proof -
  have "map_option fst (enrollAndGetTemplate (replicate 512 0) (enroll_device code)) = Some 3"
    if "code \<noteq> FINGERPRINT_OK" for code
  proof -
    from enroll_device_scans [of code] obtain d1 d2 d3 d4 d5 d6 where
      "awaitFinger200 0 (enroll_device code) = (True, d1)"
      "image2Tz 1 d1 = (FINGERPRINT_OK, d2)" "waitNoFinger d2 = Some d3"
      "awaitFinger200 0 d3 = (True, d4)" "image2Tz 2 d4 = (FINGERPRINT_OK, d5)"
      "createModel d5 = (code, d6)"
      by blast
    with that show ?thesis by (simp add: enrollAndGetTemplate_def)
  qed
  from this [of 1] this [of FINGERPRINT_ENROLLMISMATCH] show ?thesis by simp
qed

text \<open>
  C7, amended. After two scans that succeeded, when \<^verbatim>\<open>createModel\<close> returns OK the function
  goes on to the download of the template (and returns 4 when that fails, 0 after the
  removal of the finger otherwise); when it returns any other code, the mismatch code or
  not, the function returns 3.
\<close>

theorem enroll_model_code:
  assumes scan1: "awaitFinger200 0 d0 = (True, d1)"
    and conv1: "image2Tz 1 d1 = (FINGERPRINT_OK, d2)"
    and gone: "waitNoFinger d2 = Some d3"
    and scan2: "awaitFinger200 0 d3 = (True, d4)"
    and conv2: "image2Tz 2 d4 = (FINGERPRINT_OK, d5)"
    and model: "createModel d5 = (p, d6)"
  shows "(p = FINGERPRINT_OK \<longrightarrow>
           enrollAndGetTemplate templateOutput d0 =
             (case readRawTemplate d6 templateOutput of
                (r, d7, templateOutput') \<Rightarrow>
                  if r \<noteq> FINGERPRINT_OK then Some (4, d7, templateOutput')
                  else map_option (\<lambda>d8. (0, d8, templateOutput')) (waitNoFinger d7)))
       \<and> (p \<noteq> FINGERPRINT_OK \<longrightarrow>
           enrollAndGetTemplate templateOutput d0 = Some (3, d6, templateOutput))"
  by (simp add: enrollAndGetTemplate_def scan1 conv1 gone scan2 conv2 model)

text \<open>
  The theorem at a device whose \<^verbatim>\<open>createModel\<close> returns the code 0x01.
\<close>

theorem enroll_model_code_witness:
  "enrollAndGetTemplate (replicate 512 0) (enroll_device 0x01)
   = Some (3, (enroll_device 0x01)\<lparr>image_calls := 3, tz_slots := [1, 2], model_calls := 1\<rparr>,
           replicate 512 0)"
proof -
  from enroll_device_scans [of 1] obtain d1 d2 d3 d4 d5 d6 where
    scans: "awaitFinger200 0 (enroll_device 1) = (True, d1)"
      "image2Tz 1 d1 = (FINGERPRINT_OK, d2)" "waitNoFinger d2 = Some d3"
      "awaitFinger200 0 d3 = (True, d4)" "image2Tz 2 d4 = (FINGERPRINT_OK, d5)"
      "createModel d5 = (1, d6)"
    and d6: "d6 = (enroll_device 1)\<lparr>image_calls := 3, tz_slots := [1, 2], model_calls := 1\<rparr>"
    by blast
  from enroll_model_code [OF scans, of "replicate 512 0"] d6 show ?thesis by simp
qed

text \<open>
  C8, as stated, fails: on a device that never reports a finger the function returns 1
  from the first wait (no conversion was made), and on a device that reports a finger only
  at the first poll it returns the same 1 from the second wait (after the conversion into
  slot 1).
\<close>

theorem enroll_timeout_counterexample:
  "map_option fst (enrollAndGetTemplate (replicate 512 0) quiet_device) = Some 1
   \<and> map_option (tz_slots \<circ> fst \<circ> snd)
       (enrollAndGetTemplate (replicate 512 0) quiet_device) = Some []
   \<and> map_option fst (enrollAndGetTemplate (replicate 512 0) one_scan_device) = Some 1
   \<and> map_option (tz_slots \<circ> fst \<circ> snd)
       (enrollAndGetTemplate (replicate 512 0) one_scan_device) = Some [1]"
proof -
  define T :: "u8 list" where "T = replicate 512 0"
  define dA where "dA = quiet_device\<lparr>image_calls := image_calls quiet_device + Suc 201\<rparr>"
  have a: "awaitFinger200 0 quiet_device = (False, dA)"
    unfolding dA_def by (rule awaitFinger200_timeout) (simp_all add: quiet_device_def)
  have A: "enrollAndGetTemplate T quiet_device = Some (1, dA, T)"
    by (simp add: enrollAndGetTemplate_def a)
  have tA: "tz_slots dA = []" by (simp add: dA_def quiet_device_def)
  define d1 where "d1 = one_scan_device\<lparr>image_calls := 1\<rparr>"
  define d2 where "d2 = d1\<lparr>tz_slots := [1]\<rparr>"
  define d3 where "d3 = d2\<lparr>image_calls := 2\<rparr>"
  define d4 where "d4 = d3\<lparr>image_calls := image_calls d3 + Suc 201\<rparr>"
  have b1: "awaitFinger200 0 one_scan_device = (True, d1)"
    by (subst awaitFinger200.simps)
       (simp add: getImage_def one_scan_device_def quiet_device_def d1_def)
  have b2: "image2Tz 1 d1 = (FINGERPRINT_OK, d2)"
    by (simp add: image2Tz_def one_scan_device_def quiet_device_def d1_def d2_def)
  have b3: "waitNoFinger d2 = Some d3"
    by (subst waitNoFinger.simps)
       (simp add: getImage_def one_scan_device_def quiet_device_def d1_def d2_def d3_def)
  have b4: "awaitFinger200 0 d3 = (False, d4)"
    unfolding d4_def
    by (rule awaitFinger200_timeout)
       (simp_all add: d3_def d2_def d1_def one_scan_device_def quiet_device_def)
  have B: "enrollAndGetTemplate T one_scan_device = Some (1, d4, T)"
    by (simp add: enrollAndGetTemplate_def b1 b2 b3 b4)
  have tB: "tz_slots d4 = [1]" by (simp add: d4_def d3_def d2_def)
  show ?thesis
    unfolding T_def [symmetric] A B by (simp add: tA tB)
qed

text \<open>
  C8, amended. A wait for the finger that times out (202 polls without an image) returns
  the status 1 in the first scan stage and in the second scan stage alike.
\<close>

theorem enroll_timeout:
  assumes c: "c = image_calls d0"
  shows "((\<forall>i\<le>201. image d0 (c + i) \<noteq> FINGERPRINT_OK) \<longrightarrow>
            enrollAndGetTemplate templateOutput d0
            = Some (1, d0\<lparr>image_calls := c + 202\<rparr>, templateOutput))
       \<and> (\<forall>j k. j \<le> 201 \<longrightarrow> (\<forall>i<j. image d0 (c + i) \<noteq> FINGERPRINT_OK) \<longrightarrow>
            image d0 (c + j) = FINGERPRINT_OK \<longrightarrow>
            tz d0 (length (tz_slots d0)) = FINGERPRINT_OK \<longrightarrow>
            (\<forall>i<k. image d0 (c + Suc j + i) \<noteq> FINGERPRINT_NOFINGER) \<longrightarrow>
            image d0 (c + Suc j + k) = FINGERPRINT_NOFINGER \<longrightarrow>
            (\<forall>i\<le>201. image d0 (c + Suc j + Suc k + i) \<noteq> FINGERPRINT_OK) \<longrightarrow>
            enrollAndGetTemplate templateOutput d0
            = Some (1, d0\<lparr>tz_slots := tz_slots d0 @ [1],
                          image_calls := c + Suc j + Suc k + 202\<rparr>, templateOutput))"
proof -
  have first: "enrollAndGetTemplate templateOutput d0
            = Some (1, d0\<lparr>image_calls := c + 202\<rparr>, templateOutput)"
    if "\<forall>i\<le>201. image d0 (c + i) \<noteq> FINGERPRINT_OK"
  proof -
    have "awaitFinger200 0 d0 = (False, d0\<lparr>image_calls := image_calls d0 + Suc 201\<rparr>)"
      using that by (intro awaitFinger200_timeout) (simp_all add: c)
    then show ?thesis by (simp add: enrollAndGetTemplate_def c)
  qed
  have second: "enrollAndGetTemplate templateOutput d0
            = Some (1, d0\<lparr>tz_slots := tz_slots d0 @ [1],
                          image_calls := c + Suc j + Suc k + 202\<rparr>, templateOutput)"
    if img: "j \<le> 201" "\<forall>i<j. image d0 (c + i) \<noteq> FINGERPRINT_OK"
        "image d0 (c + j) = FINGERPRINT_OK"
      and conv: "tz d0 (length (tz_slots d0)) = FINGERPRINT_OK"
      and rem: "\<forall>i<k. image d0 (c + Suc j + i) \<noteq> FINGERPRINT_NOFINGER"
        "image d0 (c + Suc j + k) = FINGERPRINT_NOFINGER"
      and none: "\<forall>i\<le>201. image d0 (c + Suc j + Suc k + i) \<noteq> FINGERPRINT_OK"
    for j k
  proof -
    define n1 where "n1 = c + Suc j"
    define n2 where "n2 = n1 + Suc k"
    define d1 where "d1 = d0\<lparr>image_calls := n1\<rparr>"
    define d2 where "d2 = d1\<lparr>tz_slots := tz_slots d0 @ [1]\<rparr>"
    define d3 where "d3 = d2\<lparr>image_calls := n2\<rparr>"
    define d4 where "d4 = d3\<lparr>image_calls := n2 + 202\<rparr>"
    have "awaitFinger200 0 d0 = (True, d0\<lparr>image_calls := image_calls d0 + Suc j\<rparr>)"
      using img by (intro awaitFinger200_first) (simp_all add: c)
    then have s1: "awaitFinger200 0 d0 = (True, d1)" by (simp add: d1_def n1_def c)
    have s2: "image2Tz 1 d1 = (FINGERPRINT_OK, d2)"
      using conv by (simp add: image2Tz_def d1_def d2_def)
    have "waitNoFinger d2 = Some (d2\<lparr>image_calls := image_calls d2 + Suc k\<rparr>)"
      using rem by (intro waitNoFinger_first) (simp_all add: d2_def d1_def n1_def)
    then have s3: "waitNoFinger d2 = Some d3" by (simp add: d3_def d2_def d1_def n2_def)
    have "awaitFinger200 0 d3 = (False, d3\<lparr>image_calls := image_calls d3 + Suc 201\<rparr>)"
      using none
      by (intro awaitFinger200_timeout) (simp_all add: d3_def d2_def d1_def n2_def n1_def)
    then have s4: "awaitFinger200 0 d3 = (False, d4)" by (simp add: d4_def d3_def)
    have "enrollAndGetTemplate templateOutput d0 = Some (1, d4, templateOutput)"
      by (simp add: enrollAndGetTemplate_def s1 s2 s3 s4)
    moreover have "d4 = d0\<lparr>tz_slots := tz_slots d0 @ [1],
                          image_calls := c + Suc j + Suc k + 202\<rparr>"
      by (simp add: d4_def d3_def d2_def d1_def n2_def n1_def)
    ultimately show ?thesis by simp
  qed
  from first second show ?thesis by blast
qed

text \<open>
  The theorem at a device that never reports a finger, and at a device that reports a
  finger at the first poll only.
\<close>

theorem enroll_timeout_witness:
  "enrollAndGetTemplate (replicate 512 0) quiet_device
     = Some (1, quiet_device\<lparr>image_calls := 202\<rparr>, replicate 512 0)
   \<and> enrollAndGetTemplate (replicate 512 0) one_scan_device
     = Some (1, one_scan_device\<lparr>tz_slots := [1], image_calls := 204\<rparr>, replicate 512 0)"
proof -
  note inst1 = enroll_timeout [of 0 quiet_device "replicate 512 0", THEN conjunct1]
  note inst2 = enroll_timeout [of 0 one_scan_device "replicate 512 0", THEN conjunct2,
      THEN spec [where x = 0], THEN spec [where x = 0]]
  have "enrollAndGetTemplate (replicate 512 0) quiet_device
     = Some (1, quiet_device\<lparr>image_calls := 202\<rparr>, replicate 512 0)"
    using inst1 by (simp add: quiet_device_def)
  moreover have "enrollAndGetTemplate (replicate 512 0) one_scan_device
     = Some (1, one_scan_device\<lparr>tz_slots := [1], image_calls := 204\<rparr>, replicate 512 0)"
    using inst2 by (simp add: one_scan_device_def quiet_device_def)
  ultimately show ?thesis ..
qed

section \<open>Properties of the digest\<close>

lemma length_round256: "length (round256 s kw) = length s"
proof (cases kw)
  case (Pair k w)
  show ?thesis
  proof (cases "\<exists>a b c d e f g h. s = [a, b, c, d, e, f, g, h]")
    case True
    then show ?thesis by (auto simp: Pair Let_def)
  next
    case False
    then have "round256 s (k, w) = s"
      by (cases "(s, (k, w))" rule: round256.cases) auto
    then show ?thesis by (simp add: Pair)
  qed
qed

lemma length_rounds: "length (foldl round256 s kws) = length s"
  by (induction kws arbitrary: s) (simp_all add: length_round256)

lemma length_compress: "length (compress hs block) = length hs"
  by (simp add: compress_def Let_def length_rounds)

lemma length_blocks: "length (foldl compress hs blocks) = length hs"
  by (induction blocks arbitrary: hs) (simp_all add: length_compress)

lemma length_sha256: "length (sha256 msg) = 32"
proof -
  have "length (concat (map bytes32 ws)) = 4 * length ws" for ws
    by (induction ws) (simp_all add: bytes32_def)
  then show ?thesis
    by (simp add: sha256_def Let_def length_blocks H256_def)
qed

text \<open>
  The model of SHA-256 on the test vector of the standard (the message "abc").
\<close>

lemma sha256_abc:
  "sha256 [0x61, 0x62, 0x63] =
     [0xba, 0x78, 0x16, 0xbf, 0x8f, 0x01, 0xcf, 0xea, 0x41, 0x41, 0x40, 0xde, 0x5d, 0xae, 0x22,
      0x23, 0xb0, 0x03, 0x61, 0xa3, 0x96, 0x17, 0x7a, 0x9c, 0xb4, 0x10, 0xff, 0x61, 0xf2, 0x00,
      0x15, 0xad]"
  by code_simp

subsection \<open>The digest of a template of 512 bytes 0xAA\<close>

text \<open>
  The nine blocks of the padded message, one compression at a time.
\<close>

lemma aa_compress_1:
  "compress H256 aa_block =
     [1409708633, 3913579332, 1252767056, 1592446120,
      2286017546, 1945469830, 2125275014, 1852912654]"
  by code_simp

lemma aa_compress_2:
  "compress [1409708633, 3913579332, 1252767056, 1592446120,
      2286017546, 1945469830, 2125275014, 1852912654]
     aa_block =
     [2773805204, 1952430099, 3887587077, 1393646279,
      248980523, 1572641608, 3305368760, 1189760786]"
  by code_simp

lemma aa_compress_3:
  "compress [2773805204, 1952430099, 3887587077, 1393646279,
      248980523, 1572641608, 3305368760, 1189760786]
     aa_block =
     [2591675815, 1023590801, 2744651891, 666379703,
      1040328107, 3290157259, 3203477949, 889944589]"
  by code_simp

lemma aa_compress_4:
  "compress [2591675815, 1023590801, 2744651891, 666379703,
      1040328107, 3290157259, 3203477949, 889944589]
     aa_block =
     [1089645366, 2327206383, 3393601450, 734811085,
      1857714373, 618673964, 1574214724, 1384682278]"
  by code_simp

lemma aa_compress_5:
  "compress [1089645366, 2327206383, 3393601450, 734811085,
      1857714373, 618673964, 1574214724, 1384682278]
     aa_block =
     [1204638, 3061284869, 2256618029, 3775082169,
      4066856302, 696041681, 2611304967, 613827879]"
  by code_simp

lemma aa_compress_6:
  "compress [1204638, 3061284869, 2256618029, 3775082169,
      4066856302, 696041681, 2611304967, 613827879]
     aa_block =
     [1849403329, 819695124, 3882469442, 3603679609,
      19145979, 1029067351, 3900702636, 23707739]"
  by code_simp

lemma aa_compress_7:
  "compress [1849403329, 819695124, 3882469442, 3603679609,
      19145979, 1029067351, 3900702636, 23707739]
     aa_block =
     [4263288364, 2883640696, 430708283, 1359709612,
      2757009352, 286833648, 415653908, 3962469690]"
  by code_simp

lemma aa_compress_8:
  "compress [4263288364, 2883640696, 430708283, 1359709612,
      2757009352, 286833648, 415653908, 3962469690]
     aa_block =
     [88997285, 1071028895, 3193017661, 481875756,
      3371818000, 923314078, 2143432295, 2509120234]"
  by code_simp

lemma aa_compress_9:
  "compress [88997285, 1071028895, 3193017661, 481875756,
      3371818000, 923314078, 2143432295, 2509120234]
     aa_last_block =
     [2040454976, 3893452233, 2148571748, 4278876898,
      3333828128, 826034689, 4186381582, 412788674]"
  by code_simp

lemma aa_padded:
  "pad256 (replicate 512 0xAA) = concat (replicate 8 aa_block) @ aa_last_block"
  by code_simp

lemma aa_blocks:
  "chunks 9 64 (concat (replicate 8 aa_block) @ aa_last_block)
   = [aa_block, aa_block, aa_block, aa_block, aa_block, aa_block, aa_block, aa_block,
      aa_last_block]"
  by code_simp

lemma aa_bytes:
  "concat (map bytes32
     [2040454976, 3893452233, 2148571748, 4278876898,
     3333828128, 826034689, 4186381582, 412788674]) =
     [0x79, 0x9e, 0xdf, 0x40, 0xe8, 0x11, 0x5d, 0xc9, 0x80, 0x10, 0x9a, 0x64,
     0xff, 0x0a, 0x7a, 0xe2, 0xc6, 0xb6, 0x2e, 0x20, 0x31, 0x3c, 0x4a, 0x01,
     0xf9, 0x87, 0x1d, 0x0e, 0x18, 0x9a, 0xa7, 0xc2]"
  by code_simp

lemma sha256_aa:
  "sha256 (replicate 512 0xAA) =
     [0x79, 0x9e, 0xdf, 0x40, 0xe8, 0x11, 0x5d, 0xc9, 0x80, 0x10, 0x9a, 0x64,
     0xff, 0x0a, 0x7a, 0xe2, 0xc6, 0xb6, 0x2e, 0x20, 0x31, 0x3c, 0x4a, 0x01,
     0xf9, 0x87, 0x1d, 0x0e, 0x18, 0x9a, 0xa7, 0xc2]"
proof -
  have nine: "length (concat (replicate 8 aa_block) @ aa_last_block) div 64 = 9"
    by (simp add: aa_block_def aa_last_block_def length_concat sum_list_replicate)
  have chain: "foldl compress H256
      [aa_block, aa_block, aa_block, aa_block, aa_block, aa_block, aa_block, aa_block,
       aa_last_block] =
     [2040454976, 3893452233, 2148571748, 4278876898,
     3333828128, 826034689, 4186381582, 412788674]"
    by (simp add: aa_compress_1 aa_compress_2 aa_compress_3 aa_compress_4 aa_compress_5
        aa_compress_6 aa_compress_7 aa_compress_8 aa_compress_9)
  show ?thesis
    unfolding sha256_def Let_def aa_padded nine aa_blocks chain by (rule aa_bytes)
qed

lemma compareHashes_bytes:
  assumes "HASH_SIZE \<le> length hash1" "HASH_SIZE \<le> length hash2"
  shows "compareHashes hash1 hash2 \<longleftrightarrow> (\<forall>i<HASH_SIZE. hash1 ! i = hash2 ! i)"
  using assms by (auto simp: compareHashes_def list_eq_iff_nth_eq)

text \<open>A successful \<^verbatim>\<open>_getTemplateBytes\<close> leaves a template of 512 bytes.\<close>

lemma getTemplateBytes_OK_length:
  assumes "length templateBuffer = TEMPLATE_SIZE"
    and "getTemplateBytes templateBuffer d = Some (0, d', T')"
  shows "length T' = TEMPLATE_SIZE"
proof -
  from assms(2) obtain d2 d3 where "readRawTemplate d2 templateBuffer = (FINGERPRINT_OK, d3, T')"
    by (auto simp: getTemplateBytes_def split: prod.splits bool.splits if_splits)
  from readRawTemplate_OK_length [OF assms(1) this] show ?thesis .
qed

text \<open>
  \<^verbatim>\<open>_getTemplateBytes\<close> on \<open>hash_device\<close>: one poll for the image, the conversion, the
  download of 512 bytes 0xAA, and one poll that finds the finger removed.
\<close>

lemma getTemplateBytes_hash_device:
  assumes "length templateBuffer = TEMPLATE_SIZE"
  shows "getTemplateBytes templateBuffer hash_device
         = Some (0,
                 hash_device\<lparr>rx := [], image_calls := 2, tz_slots := [1], ack_calls := 1,
                   sent := [(FINGERPRINT_COMMANDPACKET, [FINGERPRINT_UPLOAD, 0x01])]\<rparr>,
                 replicate 512 0xAA)"
proof -
  define d1 where "d1 = hash_device\<lparr>image_calls := 1\<rparr>"
  define e2 where "e2 = quiet_device\<lparr>image_calls := 1, tz_slots := [1],
       image := (\<lambda>k. if k = 0 then FINGERPRINT_OK else FINGERPRINT_NOFINGER)\<rparr>"
  define d2 where "d2 = e2\<lparr>rx := stream512\<rparr>"
  define d3 where "d3 = e2\<lparr>rx := [],
       sent := sent e2 @ [(FINGERPRINT_COMMANDPACKET, [FINGERPRINT_UPLOAD, 0x01])],
       ack_calls := Suc (ack_calls e2)\<rparr>"
  have a: "awaitFinger200 0 hash_device = (True, d1)"
    by (subst awaitFinger200.simps)
       (simp add: getImage_def hash_device_def quiet_device_def d1_def)
  have b: "image2Tz 1 d1 = (FINGERPRINT_OK, d2)"
    by (simp add: image2Tz_def hash_device_def quiet_device_def d1_def d2_def e2_def)
  have c: "readRawTemplate d2 templateBuffer = (FINGERPRINT_OK, d3, replicate 512 0xAA)"
    unfolding d2_def d3_def
    by (rule download_stream512) (simp_all add: e2_def quiet_device_def assms)
  have d: "waitNoFinger d3 = Some (d3\<lparr>image_calls := Suc (image_calls d3)\<rparr>)"
    by (subst waitNoFinger.simps)
       (simp add: getImage_def d3_def e2_def quiet_device_def)
  have "getTemplateBytes templateBuffer hash_device
        = Some (0, d3\<lparr>image_calls := Suc (image_calls d3)\<rparr>, replicate 512 0xAA)"
    by (simp add: getTemplateBytes_def a b c d)
  then show ?thesis
    by (simp add: d3_def e2_def hash_device_def quiet_device_def)
qed

text \<open>
  C4. \<^verbatim>\<open>readAndHashFingerprint\<close>, called with its buffer of 512 bytes and an output array
  of 32 bytes: when \<^verbatim>\<open>_getTemplateBytes\<close> succeeds with the template \<open>T'\<close>, this has 512
  bytes, the function returns 0 and the whole of \<^verbatim>\<open>hashOutput\<close> is the SHA-256 digest of
  these 512 bytes, which has 32 bytes; when \<^verbatim>\<open>_getTemplateBytes\<close> fails, its code is
  returned and \<^verbatim>\<open>hashOutput\<close> is as it was; and the function returns 0 in no other case.
  \<^verbatim>\<open>compareHashes\<close> is true exactly when the two digests agree in each of their 32 bytes.
  So the digest of a template compares equal to the digest of the same template, and two
  successful calls that downloaded the same template leave digests that compare equal.
\<close>

theorem digest_compare:
  "length (computeDigest T) = HASH_SIZE
   \<and> (length T = TEMPLATE_SIZE \<longrightarrow> computeDigest T = sha256 T)
   \<and> (\<forall>templateBuffer hashOutput d d' T'.
         length templateBuffer = TEMPLATE_SIZE \<longrightarrow> length hashOutput = HASH_SIZE \<longrightarrow>
         getTemplateBytes templateBuffer d = Some (0, d', T') \<longrightarrow>
         length T' = TEMPLATE_SIZE
         \<and> readAndHashFingerprint templateBuffer hashOutput d = Some (0, d', sha256 T')
         \<and> length (sha256 T') = HASH_SIZE)
   \<and> (\<forall>templateBuffer hashOutput d r d' T'.
         getTemplateBytes templateBuffer d = Some (r, d', T') \<longrightarrow> r \<noteq> 0 \<longrightarrow>
         readAndHashFingerprint templateBuffer hashOutput d = Some (r, d', hashOutput))
   \<and> (\<forall>templateBuffer hashOutput d d' h.
         readAndHashFingerprint templateBuffer hashOutput d = Some (0, d', h) \<longrightarrow>
         length hashOutput = HASH_SIZE \<longrightarrow>
         (\<exists>T'. getTemplateBytes templateBuffer d = Some (0, d', T') \<and> h = computeDigest T'))
   \<and> (\<forall>hash1 hash2. length hash1 = HASH_SIZE \<longrightarrow> length hash2 = HASH_SIZE \<longrightarrow>
         compareHashes hash1 hash2 = (\<forall>i<HASH_SIZE. hash1 ! i = hash2 ! i))
   \<and> compareHashes (computeDigest T) (computeDigest T)
   \<and> (\<forall>buffer1 buffer2 hash1 hash2 d1 d2 d1' d2' T'.
         length buffer1 = TEMPLATE_SIZE \<longrightarrow> length buffer2 = TEMPLATE_SIZE \<longrightarrow>
         length hash1 = HASH_SIZE \<longrightarrow> length hash2 = HASH_SIZE \<longrightarrow>
         getTemplateBytes buffer1 d1 = Some (0, d1', T') \<longrightarrow>
         getTemplateBytes buffer2 d2 = Some (0, d2', T') \<longrightarrow>
         (\<exists>h1 h2. readAndHashFingerprint buffer1 hash1 d1 = Some (0, d1', h1)
            \<and> readAndHashFingerprint buffer2 hash2 d2 = Some (0, d2', h2)
            \<and> compareHashes h1 h2))"
proof -
  have len: "length (computeDigest T) = HASH_SIZE"
    by (simp add: computeDigest_def length_sha256)
  have full: "length T = TEMPLATE_SIZE \<longrightarrow> computeDigest T = sha256 T"
    by (simp add: computeDigest_def)
  have fwd: "length T' = TEMPLATE_SIZE
         \<and> readAndHashFingerprint templateBuffer hashOutput d = Some (0, d', sha256 T')
         \<and> length (sha256 T') = HASH_SIZE"
    if "length templateBuffer = TEMPLATE_SIZE" "length hashOutput = HASH_SIZE"
      "getTemplateBytes templateBuffer d = Some (0, d', T')"
    for templateBuffer hashOutput d d' T'
  proof -
    from getTemplateBytes_OK_length [OF that(1) that(3)] have l: "length T' = TEMPLATE_SIZE" .
    then have "computeDigest T' @ drop HASH_SIZE hashOutput = sha256 T'"
      using that(2) by (simp add: computeDigest_def)
    then have "readAndHashFingerprint templateBuffer hashOutput d = Some (0, d', sha256 T')"
      by (simp add: readAndHashFingerprint_def that(3))
    with l show ?thesis by (simp add: length_sha256)
  qed
  have fail: "readAndHashFingerprint templateBuffer hashOutput d = Some (r, d', hashOutput)"
    if "getTemplateBytes templateBuffer d = Some (r, d', T')" "r \<noteq> 0"
    for templateBuffer hashOutput d r d' T'
    using that by (simp add: readAndHashFingerprint_def)
  have run: "\<exists>T'. getTemplateBytes templateBuffer d = Some (0, d', T') \<and> h = computeDigest T'"
    if "readAndHashFingerprint templateBuffer hashOutput d = Some (0, d', h)"
      "length hashOutput = HASH_SIZE"
    for templateBuffer hashOutput d d' h
    using that
    by (auto simp: readAndHashFingerprint_def split: option.splits prod.splits if_splits)
  have cmp: "compareHashes hash1 hash2 = (\<forall>i<HASH_SIZE. hash1 ! i = hash2 ! i)"
    if "length hash1 = HASH_SIZE" "length hash2 = HASH_SIZE" for hash1 hash2
    using that by (intro compareHashes_bytes) simp_all
  have refl: "compareHashes (computeDigest T) (computeDigest T)"
    by (simp add: compareHashes_def)
  have same: "\<exists>h1 h2. readAndHashFingerprint buffer1 hash1 d1 = Some (0, d1', h1)
            \<and> readAndHashFingerprint buffer2 hash2 d2 = Some (0, d2', h2)
            \<and> compareHashes h1 h2"
    if "length buffer1 = TEMPLATE_SIZE" "length buffer2 = TEMPLATE_SIZE"
      "length hash1 = HASH_SIZE" "length hash2 = HASH_SIZE"
      "getTemplateBytes buffer1 d1 = Some (0, d1', T')"
      "getTemplateBytes buffer2 d2 = Some (0, d2', T')"
    for buffer1 buffer2 hash1 hash2 d1 d2 d1' d2' T'
    using fwd [OF that(1) that(3) that(5)] fwd [OF that(2) that(4) that(6)]
    by (simp add: compareHashes_def)
  from len full fwd fail run cmp refl same show ?thesis by blast
qed

text \<open>
  The theorem at \<open>hash_device\<close>, which sends the template of 512 bytes 0xAA: the call
  returns 0 and leaves the SHA-256 value of that message where 32 bytes 0x11 were; at
  \<open>quiet_device\<close>, where no finger arrives: the call returns 1 and leaves the 32 bytes as
  they were; and at two pairs of 32-byte arrays, equal and different in the last byte.
\<close>

theorem digest_compare_witness:
  "getTemplateBytes (replicate 512 0x55) hash_device
     = Some (0,
             hash_device\<lparr>rx := [], image_calls := 2, tz_slots := [1], ack_calls := 1,
               sent := [(FINGERPRINT_COMMANDPACKET, [FINGERPRINT_UPLOAD, 0x01])]\<rparr>,
             replicate 512 0xAA)
   \<and> readAndHashFingerprint (replicate 512 0x55) (replicate 32 0x11) hash_device
     = Some (0,
             hash_device\<lparr>rx := [], image_calls := 2, tz_slots := [1], ack_calls := 1,
               sent := [(FINGERPRINT_COMMANDPACKET, [FINGERPRINT_UPLOAD, 0x01])]\<rparr>,
             [0x79, 0x9e, 0xdf, 0x40, 0xe8, 0x11, 0x5d, 0xc9, 0x80, 0x10, 0x9a, 0x64,
              0xff, 0x0a, 0x7a, 0xe2, 0xc6, 0xb6, 0x2e, 0x20, 0x31, 0x3c, 0x4a, 0x01,
              0xf9, 0x87, 0x1d, 0x0e, 0x18, 0x9a, 0xa7, 0xc2])
   \<and> readAndHashFingerprint (replicate 512 0x55) (replicate 32 0x11) quiet_device
     = Some (1, quiet_device\<lparr>image_calls := 202\<rparr>, replicate 32 0x11)
   \<and> computeDigest (replicate 512 0xAA) =
     [0x79, 0x9e, 0xdf, 0x40, 0xe8, 0x11, 0x5d, 0xc9, 0x80, 0x10, 0x9a, 0x64,
     0xff, 0x0a, 0x7a, 0xe2, 0xc6, 0xb6, 0x2e, 0x20, 0x31, 0x3c, 0x4a, 0x01,
     0xf9, 0x87, 0x1d, 0x0e, 0x18, 0x9a, 0xa7, 0xc2]
   \<and> length (computeDigest (replicate 512 0xAA)) = 32
   \<and> compareHashes (computeDigest (replicate 512 0xAA)) (computeDigest (replicate 512 0xAA))
   \<and> compareHashes (replicate 32 0x11) (replicate 32 0x11)
   \<and> \<not> compareHashes (replicate 32 0x11) (replicate 31 0x11 @ [0x12])"
proof -
  define b0 :: "u8 list" where "b0 = replicate 512 0x55"
  define h0 :: "u8 list" where "h0 = replicate 32 0x11"
  define T :: "u8 list" where "T = replicate 512 0xAA"
  define dE where "dE = hash_device\<lparr>rx := [], image_calls := 2, tz_slots := [1], ack_calls := 1,
               sent := [(FINGERPRINT_COMMANDPACKET, [FINGERPRINT_UPLOAD, 0x01])]\<rparr>"
  define dQ where "dQ = quiet_device\<lparr>image_calls := image_calls quiet_device + Suc 201\<rparr>"
  note inst = digest_compare [of T]
  have lens: "length b0 = TEMPLATE_SIZE" "length h0 = HASH_SIZE" "length T = TEMPLATE_SIZE"
    by (simp_all add: b0_def h0_def T_def)
  have get: "getTemplateBytes b0 hash_device = Some (0, dE, T)"
    unfolding dE_def T_def by (rule getTemplateBytes_hash_device) (simp add: b0_def)
  from inst [THEN conjunct2, THEN conjunct2, THEN conjunct1, rule_format, OF lens(1,2) get]
  have "readAndHashFingerprint b0 h0 hash_device = Some (0, dE, sha256 T)"
    by simp
  then have hash: "readAndHashFingerprint b0 h0 hash_device = Some (0, dE,
     [0x79, 0x9e, 0xdf, 0x40, 0xe8, 0x11, 0x5d, 0xc9, 0x80, 0x10, 0x9a, 0x64,
      0xff, 0x0a, 0x7a, 0xe2, 0xc6, 0xb6, 0x2e, 0x20, 0x31, 0x3c, 0x4a, 0x01,
      0xf9, 0x87, 0x1d, 0x0e, 0x18, 0x9a, 0xa7, 0xc2])"
    by (simp only: T_def sha256_aa)
  have "\<forall>i\<le>201. image quiet_device (image_calls quiet_device + i) \<noteq> FINGERPRINT_OK"
    by (simp add: quiet_device_def)
  from awaitFinger200_timeout [of 201 0 quiet_device, OF _ _ this]
  have "awaitFinger200 0 quiet_device = (False, dQ)"
    by (simp add: dQ_def)
  then have "getTemplateBytes b0 quiet_device = Some (1, dQ, b0)"
    by (simp add: getTemplateBytes_def)
  from inst [THEN conjunct2, THEN conjunct2, THEN conjunct2, THEN conjunct1, rule_format,
      OF this, of h0]
  have "readAndHashFingerprint b0 h0 quiet_device = Some (1, dQ, h0)"
    by simp
  then have none: "readAndHashFingerprint b0 h0 quiet_device
      = Some (1, quiet_device\<lparr>image_calls := 202\<rparr>, h0)"
    by (simp add: dQ_def quiet_device_def)
  from inst [THEN conjunct2, THEN conjunct1] lens(3) have "computeDigest T = sha256 T" by simp
  then have d: "computeDigest T =
     [0x79, 0x9e, 0xdf, 0x40, 0xe8, 0x11, 0x5d, 0xc9, 0x80, 0x10, 0x9a, 0x64,
     0xff, 0x0a, 0x7a, 0xe2, 0xc6, 0xb6, 0x2e, 0x20, 0x31, 0x3c, 0x4a, 0x01,
     0xf9, 0x87, 0x1d, 0x0e, 0x18, 0x9a, 0xa7, 0xc2]"
    by (simp only: T_def sha256_aa)
  from inst have a: "length (computeDigest T) = 32"
    "compareHashes (computeDigest T) (computeDigest T)"
    by simp_all
  note cmp = inst [THEN conjunct2, THEN conjunct2, THEN conjunct2, THEN conjunct2,
      THEN conjunct2, THEN conjunct1, rule_format]
  have b: "compareHashes (replicate 32 0x11) (replicate 32 0x11)"
    using cmp [of "replicate 32 0x11" "replicate 32 0x11"] by simp
  have "replicate 32 (0x11 :: u8) ! 31 \<noteq> (replicate 31 0x11 @ [0x12]) ! 31"
    by (simp add: nth_append)
  then have c: "\<not> compareHashes (replicate 32 0x11) (replicate 31 0x11 @ [0x12])"
    using cmp [of "replicate 32 0x11" "replicate 31 0x11 @ [0x12]"] by auto
  from get hash none d a b c show ?thesis
    unfolding b0_def h0_def T_def dE_def by simp
qed

end
